theory Spec2Isabelle
  imports Complex_Main
begin

section \<open>The cache of Challenge 3 (v3.py): data model\<close>

text \<open>
  The development embeds \<^verbatim>\<open>Challenge 3/v3.py\<close>: the classes \<^verbatim>\<open>CacheEntry\<close>,
  \<^verbatim>\<open>CacheConfig\<close> and \<^verbatim>\<open>Cache\<close>.

  Modelling conventions.
  \<^item> Time stamps are Python floats; they are modelled as reals, and \<^verbatim>\<open>current_time + ttl\<close>
    is exact addition.
  \<^item> Every public method runs under \<^verbatim>\<open>self._lock\<close>. All readings of \<^verbatim>\<open>time.time()\<close>
    taken during one call are one instant, the argument \<open>now\<close> of the operation.
  \<^item> \<^verbatim>\<open>self._cache\<close> is an \<^verbatim>\<open>OrderedDict\<close>: an association list in iteration order,
    the head being the oldest position and the last element the newest.
  \<^item> The file system is part of the state: a map from paths to file contents. Whether a
    write succeeds is the flag \<open>writable\<close> (a failing \<^verbatim>\<open>open\<close>, \<^verbatim>\<open>json.dump\<close> or
    \<^verbatim>\<open>os.replace\<close> is caught by \<^verbatim>\<open>_save_to_storage\<close> and leaves the file as it was).
  \<^item> A storage file is modelled by the snapshot that \<^verbatim>\<open>json.dump\<close> was given. What
    \<^verbatim>\<open>json.load\<close> hands back is decided by the JSON codec, a parameter \<open>codec\<close> of the
    constructor: \<open>codec v\<close> is the Python value read back for a stored value \<open>v\<close> (the
    same value for strings, numbers, lists and dictionaries with string keys; a list for a
    tuple; a string key for every other dictionary key). Keys are strings and time stamps
    are floats or \<^verbatim>\<open>None\<close>, which are read back as written.
  \<^item> \<open>save_calls\<close> counts the calls of \<^verbatim>\<open>_save_to_storage\<close>; it is the only field that
    is not a field of the Python object or of its environment.
\<close>

type_synonym time = real

record 'v CacheEntry =
  key :: string
  entry_value :: 'v
  created_at :: time
  expires_at :: "time option"
  last_accessed :: time

record CacheConfig =
  max_size :: int
  default_ttl :: "time option"
  storage_file :: "string option"
  enable_persistence :: bool
  auto_cleanup :: bool

datatype error = ValueError

text \<open>An argument passed as key to \<^verbatim>\<open>set\<close>: a \<^verbatim>\<open>str\<close>, or any other Python object.\<close>

datatype pyobj = PyStr string | PyOther

text \<open>
  One element of the \<^verbatim>\<open>'entries'\<close> list of a snapshot: a dictionary with the five
  fields, or anything on which \<^verbatim>\<open>CacheEntry.from_dict\<close> raises.
\<close>

datatype 'v entry_data = EntryDict "'v CacheEntry" | Malformed

text \<open>
  The contents of a storage file: not JSON at all, JSON that is not a dictionary with an
  \<^verbatim>\<open>'entries'\<close> key, or a snapshot with its version, time stamp and entries.
\<close>

datatype 'v stored_file = InvalidJSON | InvalidFormat | CacheData string time "'v entry_data list"

record 'v Cache =
  config :: CacheConfig
  cache :: "(string \<times> 'v CacheEntry) list"
  hits :: nat
  misses :: nat
  evictions :: nat
  expirations :: nat
  files :: "string \<Rightarrow> 'v stored_file option"
  writable :: bool
  save_calls :: nat

section \<open>OrderedDict operations\<close>

text \<open>\<^verbatim>\<open>key in d\<close>\<close>

definition od_contains :: "string \<Rightarrow> (string \<times> 'a) list \<Rightarrow> bool" where
  "od_contains k d = (k \<in> set (map fst d))"

text \<open>\<^verbatim>\<open>d.get(key)\<close>\<close>

definition od_get :: "(string \<times> 'a) list \<Rightarrow> string \<Rightarrow> 'a option" where
  "od_get d k = map_of d k"

text \<open>
  \<^verbatim>\<open>del d[key]\<close>. Python raises \<^verbatim>\<open>KeyError\<close> on a missing key; every call in the cache
  is made on a key that is present.
\<close>

definition od_delitem :: "string \<Rightarrow> (string \<times> 'a) list \<Rightarrow> (string \<times> 'a) list" where
  "od_delitem k d = filter (\<lambda>p. fst p \<noteq> k) d"

text \<open>\<^verbatim>\<open>d[key] = v\<close>: an existing key keeps its position, a new key goes to the end.\<close>

fun od_setitem :: "string \<Rightarrow> 'a \<Rightarrow> (string \<times> 'a) list \<Rightarrow> (string \<times> 'a) list" where
  "od_setitem k v [] = [(k, v)]"
| "od_setitem k v (p # ps) = (if fst p = k then (k, v) # ps else p # od_setitem k v ps)"

text \<open>\<^verbatim>\<open>d.move_to_end(key)\<close>, called on a key that is present.\<close>

definition od_move_to_end :: "string \<Rightarrow> (string \<times> 'a) list \<Rightarrow> (string \<times> 'a) list" where
  "od_move_to_end k d =
     (case map_of d k of None \<Rightarrow> d | Some v \<Rightarrow> od_delitem k d @ [(k, v)])"

text \<open>
  Python's \<^verbatim>\<open>min(iterable, key=f)\<close> on a non-empty iterable: the first element whose
  \<open>f\<close> is minimal (a later element replaces the candidate only when strictly smaller).
\<close>

fun min_by :: "('a \<Rightarrow> time) \<Rightarrow> 'a \<Rightarrow> 'a list \<Rightarrow> 'a" where
  "min_by f best [] = best"
| "min_by f best (x # xs) = min_by f (if f x < f best then x else best) xs"

section \<open>CacheEntry and CacheConfig\<close>

definition is_expired :: "time \<Rightarrow> 'v CacheEntry \<Rightarrow> bool" where
  "is_expired now e = (case expires_at e of None \<Rightarrow> False | Some t \<Rightarrow> now > t)"

definition update_access_time :: "time \<Rightarrow> 'v CacheEntry \<Rightarrow> 'v CacheEntry" where
  "update_access_time now e = e\<lparr>last_accessed := now\<rparr>"

definition to_dict :: "'v CacheEntry \<Rightarrow> 'v entry_data" where
  "to_dict e = EntryDict e"

definition from_dict :: "'v entry_data \<Rightarrow> 'v CacheEntry option" where
  "from_dict d = (case d of EntryDict e \<Rightarrow> Some e | Malformed \<Rightarrow> None)"

text \<open>
  One element of \<^verbatim>\<open>data['entries']\<close> as \<^verbatim>\<open>json.load\<close> returns it: the stored value has
  gone through the codec, the other fields are as written.
\<close>

definition json_load_entry :: "('v \<Rightarrow> 'v) \<Rightarrow> 'v entry_data \<Rightarrow> 'v entry_data" where
  "json_load_entry codec d =
     (case d of
        EntryDict e \<Rightarrow> EntryDict (e\<lparr>entry_value := codec (entry_value e)\<rparr>)
      | Malformed \<Rightarrow> Malformed)"

text \<open>\<^verbatim>\<open>CacheConfig.__init__\<close>: raises on a non-positive \<^verbatim>\<open>max_size\<close>.\<close>

definition CacheConfig_init ::
  "int \<Rightarrow> time option \<Rightarrow> string option \<Rightarrow> bool \<Rightarrow> bool \<Rightarrow> error + CacheConfig" where
  "CacheConfig_init m ttl path persist auto =
     (if m \<le> 0 then Inl ValueError
      else Inr \<lparr>max_size = m, default_ttl = ttl, storage_file = path,
                enable_persistence = (persist \<and> path \<noteq> None), auto_cleanup = auto\<rparr>)"

text \<open>\<^verbatim>\<open>CacheConfig()\<close> with every default.\<close>

definition default_config :: CacheConfig where
  "default_config = \<lparr>max_size = 100, default_ttl = None, storage_file = None,
                     enable_persistence = False, auto_cleanup = True\<rparr>"

section \<open>Cache: internal methods\<close>

text \<open>
  \<^verbatim>\<open>_save_to_storage\<close>: nothing without a (non-empty) path; otherwise the snapshot
  replaces the file, unless the write fails.
\<close>

definition save_to_storage :: "time \<Rightarrow> 'v Cache \<Rightarrow> 'v Cache" where
  "save_to_storage now s =
     (let s0 = s\<lparr>save_calls := save_calls s + 1\<rparr> in
      case storage_file (config s0) of
        None \<Rightarrow> s0
      | Some path \<Rightarrow>
          if path = [] then s0
          else if writable s0
          then s0\<lparr>files := (files s0)(path \<mapsto>
                    CacheData ''1.0'' now (map (\<lambda>p. to_dict (snd p)) (cache s0)))\<rparr>
          else s0)"

text \<open>
  The test \<^verbatim>\<open>entry.expires_at and current_time > entry.expires_at\<close>: a time stamp of
  \<^verbatim>\<open>0.0\<close> is falsy, like \<^verbatim>\<open>None\<close>.
\<close>

definition skipped_on_load :: "time \<Rightarrow> 'v CacheEntry \<Rightarrow> bool" where
  "skipped_on_load current_time entry =
     (case expires_at entry of None \<Rightarrow> False | Some t \<Rightarrow> t \<noteq> 0 \<and> current_time > t)"

text \<open>One round of the loop of \<^verbatim>\<open>_load_from_storage\<close>.\<close>

definition load_entry :: "time \<Rightarrow> 'v entry_data \<Rightarrow> 'v Cache \<Rightarrow> 'v Cache" where
  "load_entry current_time entry_data s =
     (case from_dict entry_data of
        None \<Rightarrow> s
      | Some entry \<Rightarrow>
          if skipped_on_load current_time entry then s
          else s\<lparr>cache := od_setitem (key entry) entry (cache s)\<rparr>)"

definition load_from_storage :: "('v \<Rightarrow> 'v) \<Rightarrow> time \<Rightarrow> 'v Cache \<Rightarrow> 'v Cache" where
  "load_from_storage codec now s =
     (case storage_file (config s) of
        None \<Rightarrow> s
      | Some path \<Rightarrow>
          if path = [] then s
          else (case files s path of
                  None \<Rightarrow> s
                | Some InvalidJSON \<Rightarrow> s
                | Some InvalidFormat \<Rightarrow> s
                | Some (CacheData version timestamp entries) \<Rightarrow>
                    fold (load_entry now) (map (json_load_entry codec) entries) s))"

text \<open>\<^verbatim>\<open>_cleanup_expired\<close>: returns the number of entries removed.\<close>

definition expired_keys :: "time \<Rightarrow> (string \<times> 'v CacheEntry) list \<Rightarrow> string list" where
  "expired_keys now d = map fst (filter (\<lambda>p. is_expired now (snd p)) d)"

text \<open>The body of the loop over the expired keys.\<close>

definition expire_entry :: "string \<Rightarrow> 'v Cache \<Rightarrow> 'v Cache" where
  "expire_entry k s = s\<lparr>cache := od_delitem k (cache s), expirations := expirations s + 1\<rparr>"

definition cleanup_expired :: "time \<Rightarrow> 'v Cache \<Rightarrow> nat \<times> 'v Cache" where
  "cleanup_expired now s =
     (let ks = expired_keys now (cache s);
          s1 = fold expire_entry ks s;
          s2 = (if ks \<noteq> [] \<and> enable_persistence (config s1)
                then save_to_storage now s1 else s1)
      in (length ks, s2))"

text \<open>\<^verbatim>\<open>_evict_lru\<close>: scans for the smallest \<^verbatim>\<open>last_accessed\<close>.\<close>

definition lru_key :: "(string \<times> 'v CacheEntry) list \<Rightarrow> string option" where
  "lru_key d =
     (case map fst d of
        [] \<Rightarrow> None
      | k # ks \<Rightarrow> Some (min_by (\<lambda>k'. last_accessed (the (map_of d k'))) k ks))"

definition evict_lru :: "'v Cache \<Rightarrow> 'v Cache" where
  "evict_lru s =
     (case lru_key (cache s) of
        None \<Rightarrow> s
      | Some k \<Rightarrow> s\<lparr>cache := od_delitem k (cache s), evictions := evictions s + 1\<rparr>)"

text \<open>\<^verbatim>\<open>_evict_lru\<close> of v2.py, on the same store: \<^verbatim>\<open>popitem(last=False)\<close>.\<close>

definition v2_evict_lru :: "(string \<times> 'v CacheEntry) list \<Rightarrow> (string \<times> 'v CacheEntry) list" where
  "v2_evict_lru d = (case d of [] \<Rightarrow> [] | p # ps \<Rightarrow> ps)"

section \<open>Cache: public methods\<close>

text \<open>\<^verbatim>\<open>Cache.__init__\<close>, on the file system \<open>fs\<close> and with the JSON codec \<open>codec\<close>.\<close>

definition Cache_init ::
  "('v \<Rightarrow> 'v) \<Rightarrow> time \<Rightarrow> CacheConfig option \<Rightarrow> (string \<Rightarrow> 'v stored_file option) \<Rightarrow> bool \<Rightarrow>
   'v Cache" where
  "Cache_init codec now cfg fs w =
     (let s = \<lparr>config = (case cfg of None \<Rightarrow> default_config | Some c \<Rightarrow> c),
                cache = [], hits = 0, misses = 0, evictions = 0, expirations = 0,
                files = fs, writable = w, save_calls = 0\<rparr>
      in if enable_persistence (config s) then load_from_storage codec now s else s)"

definition new_entry :: "string \<Rightarrow> 'v \<Rightarrow> time \<Rightarrow> time option \<Rightarrow> 'v CacheEntry" where
  "new_entry k v current_time effective_ttl =
     \<lparr>key = k, entry_value = v, created_at = current_time,
      expires_at = (case effective_ttl of None \<Rightarrow> None | Some t \<Rightarrow> Some (current_time + t)),
      last_accessed = current_time\<rparr>"

text \<open>
  The capacity check of \<^verbatim>\<open>Cache.set\<close> (the block under the comment ``Check if we need
  to evict''), for the key \<open>k\<close> being written: when the key is new and the store is full,
  expired entries are purged, and if that frees nothing the least recently used entry is
  evicted.
\<close>

definition ensure_capacity :: "time \<Rightarrow> string \<Rightarrow> 'v Cache \<Rightarrow> 'v Cache" where
  "ensure_capacity now k s =
     (if \<not> od_contains k (cache s) \<and> int (length (cache s)) \<ge> max_size (config s)
      then (let s' = snd (cleanup_expired now s)
            in if int (length (cache s')) \<ge> max_size (config s')
               then evict_lru s' else s')
      else s)"

text \<open>
  \<^verbatim>\<open>Cache.set\<close>. The result is the exception raised or the value returned, with the
  state the call leaves. With the argument types above nothing inside the \<^verbatim>\<open>try\<close> block
  raises, so the \<^verbatim>\<open>except\<close> branch (which returns \<^verbatim>\<open>False\<close>) is not taken.
\<close>

definition set_op ::
  "time \<Rightarrow> pyobj \<Rightarrow> 'v \<Rightarrow> time option \<Rightarrow> 'v Cache \<Rightarrow> (error + bool) \<times> 'v Cache" where
  "set_op now key_arg v ttl s =
     (case key_arg of
        PyOther \<Rightarrow> (Inl ValueError, s)
      | PyStr k \<Rightarrow>
          if k = [] then (Inl ValueError, s)
          else
            (let s1 = (if auto_cleanup (config s) then snd (cleanup_expired now s) else s);
                 effective_ttl = (case ttl of Some t \<Rightarrow> Some t | None \<Rightarrow> default_ttl (config s1));
                 s2 = ensure_capacity now k s1;
                 entry = new_entry k v now effective_ttl;
                 s3 = (if od_contains k (cache s2)
                       then s2\<lparr>cache := od_delitem k (cache s2)\<rparr> else s2);
                 s4 = s3\<lparr>cache := od_setitem k entry (cache s3)\<rparr>;
                 s5 = (if enable_persistence (config s4) then save_to_storage now s4 else s4)
             in (Inr True, s5)))"

text \<open>\<^verbatim>\<open>Cache.get\<close>: the value returned and the state left.\<close>

definition get_op :: "time \<Rightarrow> string \<Rightarrow> 'v \<Rightarrow> 'v Cache \<Rightarrow> 'v \<times> 'v Cache" where
  "get_op now k dflt s =
     (case od_get (cache s) k of
        None \<Rightarrow> (dflt, s\<lparr>misses := misses s + 1\<rparr>)
      | Some entry \<Rightarrow>
          if is_expired now entry
          then (let s1 = s\<lparr>cache := od_delitem k (cache s),
                           expirations := expirations s + 1,
                           misses := misses s + 1\<rparr>;
                    s2 = (if enable_persistence (config s1) then save_to_storage now s1 else s1)
                in (dflt, s2))
          else (let entry' = update_access_time now entry;
                    s1 = s\<lparr>cache := od_setitem k entry' (cache s), hits := hits s + 1\<rparr>;
                    s2 = s1\<lparr>cache := od_move_to_end k (cache s1)\<rparr>
                in (entry_value entry', s2)))"

text \<open>\<^verbatim>\<open>Cache.has\<close>\<close>

definition has_op :: "time \<Rightarrow> string \<Rightarrow> 'v Cache \<Rightarrow> bool \<times> 'v Cache" where
  "has_op now k s =
     (case od_get (cache s) k of
        None \<Rightarrow> (False, s)
      | Some entry \<Rightarrow>
          if is_expired now entry
          then (let s1 = s\<lparr>cache := od_delitem k (cache s),
                           expirations := expirations s + 1\<rparr>;
                    s2 = (if enable_persistence (config s1) then save_to_storage now s1 else s1)
                in (False, s2))
          else (True, s))"

text \<open>\<^verbatim>\<open>Cache.delete\<close>\<close>

definition delete_op :: "time \<Rightarrow> string \<Rightarrow> 'v Cache \<Rightarrow> bool \<times> 'v Cache" where
  "delete_op now k s =
     (if od_contains k (cache s)
      then (let s1 = s\<lparr>cache := od_delitem k (cache s)\<rparr>;
                s2 = (if enable_persistence (config s1) then save_to_storage now s1 else s1)
            in (True, s2))
      else (False, s))"

text \<open>\<^verbatim>\<open>Cache.clear\<close>\<close>

definition clear_op :: "time \<Rightarrow> 'v Cache \<Rightarrow> 'v Cache" where
  "clear_op now s =
     (let s1 = s\<lparr>cache := []\<rparr>
      in if enable_persistence (config s1) then save_to_storage now s1 else s1)"

text \<open>\<^verbatim>\<open>Cache.size\<close>\<close>

definition size_op :: "time \<Rightarrow> 'v Cache \<Rightarrow> nat \<times> 'v Cache" where
  "size_op now s =
     (let s1 = (if auto_cleanup (config s) then snd (cleanup_expired now s) else s)
      in (length (cache s1), s1))"

text \<open>\<^verbatim>\<open>Cache.keys\<close>\<close>

definition keys_op :: "time \<Rightarrow> 'v Cache \<Rightarrow> string list \<times> 'v Cache" where
  "keys_op now s =
     (let s1 = (if auto_cleanup (config s) then snd (cleanup_expired now s) else s)
      in (map fst (cache s1), s1))"

text \<open>
  \<^verbatim>\<open>Cache.get_stats\<close>. The hit rate is returned as a number; the source formats it with
  two decimals and a percent sign.
\<close>

record stats_report =
  stat_size :: nat
  stat_max_size :: int
  stat_hits :: nat
  stat_misses :: nat
  stat_hit_rate :: real
  stat_evictions :: nat
  stat_expirations :: nat

definition get_stats_op :: "time \<Rightarrow> 'v Cache \<Rightarrow> stats_report \<times> 'v Cache" where
  "get_stats_op now s =
     (let s1 = (if auto_cleanup (config s) then snd (cleanup_expired now s) else s);
          total_requests = hits s1 + misses s1;
          hit_rate = (if total_requests > 0
                      then real (hits s1) / real total_requests * 100 else 0)
      in (\<lparr>stat_size = length (cache s1), stat_max_size = max_size (config s1),
           stat_hits = hits s1, stat_misses = misses s1, stat_hit_rate = hit_rate,
           stat_evictions = evictions s1, stat_expirations = expirations s1\<rparr>, s1))"

text \<open>
  The expression \<^verbatim>\<open>Cache(CacheConfig(max_size=m, ...))\<close>: the configuration is built
  first, and its exception leaves no cache.
\<close>

definition construct ::
  "('v \<Rightarrow> 'v) \<Rightarrow> time \<Rightarrow> int \<Rightarrow> time option \<Rightarrow> string option \<Rightarrow> bool \<Rightarrow> bool \<Rightarrow>
   (string \<Rightarrow> 'v stored_file option) \<Rightarrow> bool \<Rightarrow> error + 'v Cache" where
  "construct codec now m ttl path persist auto fs w =
     (case CacheConfig_init m ttl path persist auto of
        Inl e \<Rightarrow> Inl e
      | Inr c \<Rightarrow> Inr (Cache_init codec now (Some c) fs w))"

section \<open>States of the cache\<close>

text \<open>
  The shape every store built by the cache has: the keys of the dictionary are distinct,
  and each entry is filed under its own \<^verbatim>\<open>key\<close> field.
\<close>

definition wf_store :: "(string \<times> 'v CacheEntry) list \<Rightarrow> bool" where
  "wf_store d = (distinct (map fst d) \<and> (\<forall>p \<in> set d. key (snd p) = fst p))"

text \<open>The recency order agrees with the time stamps: \<^verbatim>\<open>last_accessed\<close> never decreases
  from the head of the dictionary to its end.\<close>

definition recency_sorted :: "(string \<times> 'v CacheEntry) list \<Rightarrow> bool" where
  "recency_sorted d = sorted (map (\<lambda>p. last_accessed (snd p)) d)"

text \<open>Keys distinct, order sorted by time stamp, and no time stamp later than \<open>t\<close>.\<close>

definition recency_inv :: "time \<Rightarrow> (string \<times> 'v CacheEntry) list \<Rightarrow> bool" where
  "recency_inv t d =
     (distinct (map fst d) \<and> recency_sorted d \<and> (\<forall>p \<in> set d. last_accessed (snd p) \<le> t))"

definition within_capacity :: "'v Cache \<Rightarrow> bool" where
  "within_capacity s = (int (length (cache s)) \<le> max_size (config s))"

text \<open>
  \<open>reachable t s\<close>: the state \<open>s\<close> is reached from a cache with no entries by public
  operations, called at clock readings that never decrease, the last of them \<open>t\<close>.
\<close>

inductive reachable :: "time \<Rightarrow> 'v Cache \<Rightarrow> bool" where
  reach_empty: "cache s = [] \<Longrightarrow> reachable t s"
| reach_set: "reachable t s \<Longrightarrow> t \<le> now \<Longrightarrow> reachable now (snd (set_op now k v ttl s))"
| reach_get: "reachable t s \<Longrightarrow> t \<le> now \<Longrightarrow> reachable now (snd (get_op now ks dflt s))"
| reach_has: "reachable t s \<Longrightarrow> t \<le> now \<Longrightarrow> reachable now (snd (has_op now ks s))"
| reach_delete: "reachable t s \<Longrightarrow> t \<le> now \<Longrightarrow> reachable now (snd (delete_op now ks s))"
| reach_clear: "reachable t s \<Longrightarrow> t \<le> now \<Longrightarrow> reachable now (clear_op now s)"
| reach_size: "reachable t s \<Longrightarrow> t \<le> now \<Longrightarrow> reachable now (snd (size_op now s))"
| reach_keys: "reachable t s \<Longrightarrow> t \<le> now \<Longrightarrow> reachable now (snd (keys_op now s))"
| reach_get_stats: "reachable t s \<Longrightarrow> t \<le> now \<Longrightarrow> reachable now (snd (get_stats_op now s))"

section \<open>Sample configurations and states\<close>

definition demo_config :: CacheConfig where
  "demo_config = \<lparr>max_size = 2, default_ttl = None, storage_file = Some ''c.json'',
                  enable_persistence = True, auto_cleanup = True\<rparr>"

text \<open>The same storage file, with room for one entry only.\<close>

definition small_config :: CacheConfig where
  "small_config = \<lparr>max_size = 1, default_ttl = None, storage_file = Some ''c.json'',
                   enable_persistence = True, auto_cleanup = True\<rparr>"

definition demo_a :: "nat CacheEntry" where
  "demo_a = \<lparr>key = ''a'', entry_value = 1, created_at = 1, expires_at = Some 5,
             last_accessed = 1\<rparr>"

definition demo_b :: "nat CacheEntry" where
  "demo_b = \<lparr>key = ''b'', entry_value = 2, created_at = 2, expires_at = None,
             last_accessed = 2\<rparr>"

definition demo_empty :: "nat Cache" where
  "demo_empty = \<lparr>config = demo_config, cache = [], hits = 0, misses = 0, evictions = 0,
                 expirations = 0, files = (\<lambda>p. None), writable = True, save_calls = 0\<rparr>"

definition demo_cache :: "nat Cache" where
  "demo_cache = demo_empty\<lparr>cache := [(''a'', demo_a), (''b'', demo_b)]\<rparr>"

text \<open>A run from the empty cache: two writes, then a read of the older key.\<close>

definition demo_run :: "nat Cache" where
  "demo_run = snd (get_op 3 ''a'' 0 (snd (set_op 2 (PyStr ''b'') 20 None
                 (snd (set_op 1 (PyStr ''a'') 10 None demo_empty)))))"

text \<open>
  A second cache on the storage file of the sample cache, built at time 3 with
  \<^verbatim>\<open>max_size = 1\<close> after the sample cache has saved its two entries. The values are
  integers, which JSON reads back as written.
\<close>

definition demo_reloaded :: "nat Cache" where
  "demo_reloaded =
     Cache_init (\<lambda>v. v) 3 (Some small_config) (files (save_to_storage 2 demo_cache)) True"

text \<open>
  A fragment of the Python values a cache may hold, and what \<^verbatim>\<open>json.load\<close> returns for
  the text that \<^verbatim>\<open>json.dump\<close> writes for them, after the documentation of the \<^verbatim>\<open>json\<close>
  module of the standard library: integers and strings come back as they were, a list as a
  list, and a tuple is written as a JSON array, which is read back as a list.
\<close>

datatype pyval = VInt int | VStr string | VList "pyval list" | VTuple "pyval list"

fun json_codec :: "pyval \<Rightarrow> pyval" where
  "json_codec (VInt n) = VInt n"
| "json_codec (VStr x) = VStr x"
| "json_codec (VList xs) = VList (map json_codec xs)"
| "json_codec (VTuple xs) = VList (map json_codec xs)"

text \<open>A cache that holds a tuple under the key \<open>t\<close>.\<close>

definition tuple_entry :: "pyval CacheEntry" where
  "tuple_entry = \<lparr>key = ''t'', entry_value = VTuple [VInt 1, VInt 2], created_at = 1,
                   expires_at = None, last_accessed = 1\<rparr>"

definition tuple_cache :: "pyval Cache" where
  "tuple_cache = \<lparr>config = demo_config, cache = [(''t'', tuple_entry)], hits = 0, misses = 0,
                   evictions = 0, expirations = 0, files = (\<lambda>p. None), writable = True,
                   save_calls = 0\<rparr>"

section \<open>Basic facts: persistence, the ordered dictionary, cleanup\<close>


lemma save_to_storage_cache [simp]: "cache (save_to_storage now s) = cache s"
  and save_to_storage_config [simp]: "config (save_to_storage now s) = config s"
  and save_to_storage_hits [simp]: "hits (save_to_storage now s) = hits s"
  and save_to_storage_misses [simp]: "misses (save_to_storage now s) = misses s"
  and save_to_storage_evictions [simp]: "evictions (save_to_storage now s) = evictions s"
  and save_to_storage_expirations [simp]: "expirations (save_to_storage now s) = expirations s"
  and save_to_storage_writable [simp]: "writable (save_to_storage now s) = writable s"
  and save_to_storage_calls [simp]: "save_calls (save_to_storage now s) = save_calls s + 1"
  by (simp_all add: save_to_storage_def Let_def split: option.splits)

lemma save_to_storage_files:
  "storage_file (config s) = Some p \<Longrightarrow> p \<noteq> [] \<Longrightarrow> writable s \<Longrightarrow>
   files (save_to_storage now s) =
     (files s)(p \<mapsto> CacheData ''1.0'' now (map (\<lambda>q. to_dict (snd q)) (cache s)))"
  by (simp add: save_to_storage_def Let_def)

lemma fold_expire_cache:
  "cache (fold expire_entry ks s) = filter (\<lambda>p. fst p \<notin> set ks) (cache s)"
  by (induction ks arbitrary: s) (auto simp: expire_entry_def od_delitem_def intro: filter_cong)


lemma fold_expire_frame:
  "config (fold expire_entry ks s) = config s"
  "hits (fold expire_entry ks s) = hits s"
  "misses (fold expire_entry ks s) = misses s"
  "evictions (fold expire_entry ks s) = evictions s"
  "files (fold expire_entry ks s) = files s"
  "writable (fold expire_entry ks s) = writable s"
  "save_calls (fold expire_entry ks s) = save_calls s"
  by (induction ks arbitrary: s) (auto simp: expire_entry_def)


lemma od_delitem_keys: "map fst (od_delitem k d) = filter (\<lambda>k'. k' \<noteq> k) (map fst d)"
  by (simp add: od_delitem_def filter_map comp_def)

lemma od_delitem_distinct: "distinct (map fst d) \<Longrightarrow> distinct (map fst (od_delitem k d))"
  by (simp add: od_delitem_keys)

lemma od_delitem_absent: "\<not> od_contains k d \<Longrightarrow> od_delitem k d = d"
  by (induction d) (auto simp: od_delitem_def od_contains_def)

lemma od_contains_delitem: "od_contains k' (od_delitem k d) = (k' \<noteq> k \<and> od_contains k' d)"
  by (auto simp: od_contains_def od_delitem_def)

lemma od_setitem_absent: "\<not> od_contains k d \<Longrightarrow> od_setitem k v d = d @ [(k, v)]"
  by (induction d) (auto simp: od_contains_def)

lemma od_setitem_keys_present: "od_contains k d \<Longrightarrow> map fst (od_setitem k v d) = map fst d"
  by (induction d) (auto simp: od_contains_def)

lemma map_of_od_setitem: "map_of (od_setitem k v d) k' = (if k' = k then Some v else map_of d k')"
  by (induction d) auto

lemma od_delitem_setitem: "od_delitem k (od_setitem k v d) = od_delitem k d"
  by (induction d) (auto simp: od_delitem_def)

lemma map_of_od_delitem: "map_of (od_delitem k d) k' = (if k' = k then None else map_of d k')"
  by (induction d) (auto simp: od_delitem_def)

lemma od_contains_map_of: "od_contains k d = (map_of d k \<noteq> None)"
  by (simp add: od_contains_def map_of_eq_None_iff)



lemma cleanup_cache_keys:
  "cache (snd (cleanup_expired now s)) =
   filter (\<lambda>p. fst p \<notin> set (expired_keys now (cache s))) (cache s)"
  by (simp add: cleanup_expired_def Let_def fold_expire_cache)



lemma cleanup_frame [simp]:
  "config (snd (cleanup_expired now s)) = config s"
  "hits (snd (cleanup_expired now s)) = hits s"
  "misses (snd (cleanup_expired now s)) = misses s"
  "evictions (snd (cleanup_expired now s)) = evictions s"
  "writable (snd (cleanup_expired now s)) = writable s"
  by (simp_all add: cleanup_expired_def Let_def fold_expire_frame)

lemma cleanup_result: "fst (cleanup_expired now s) = length (expired_keys now (cache s))"
  by (simp add: cleanup_expired_def Let_def)

lemma cleanup_none_expired:
  "expired_keys now (cache s) = [] \<Longrightarrow> snd (cleanup_expired now s) = s"
  by (simp add: cleanup_expired_def Let_def)

lemma od_move_to_end_setitem:
  "od_move_to_end k (od_setitem k v d) = od_delitem k d @ [(k, v)]"
  by (simp add: od_move_to_end_def map_of_od_setitem od_delitem_setitem)

lemma od_get_delitem_same: "od_get (od_delitem k d) k = None"
  by (simp add: od_get_def map_of_od_delitem)

lemma od_delitem_idem:
  "filter (\<lambda>p. fst p \<noteq> k) (od_delitem k d) = filter (\<lambda>p. fst p \<noteq> k) d"
  by (simp add: od_delitem_def)


section \<open>Basic facts: eviction and the stages of set\<close>

lemma min_by_in: "min_by f b xs \<in> set (b # xs)"
  by (induction xs arbitrary: b) auto



lemma min_by_first: "\<forall>x \<in> set xs. f b \<le> f x \<Longrightarrow> min_by f b xs = b"
  by (induction xs arbitrary: b) (auto simp: not_less)

lemma lru_key_empty: "lru_key d = None \<longleftrightarrow> d = []"
  by (cases d) (simp_all add: lru_key_def)

lemma lru_key_contains: "lru_key d = Some k \<Longrightarrow> od_contains k d"
proof (cases d)
  case Nil
  then show "lru_key d = Some k \<Longrightarrow> od_contains k d" by (simp add: lru_key_def)
next
  case (Cons p ps)
  assume "lru_key d = Some k"
  with Cons have "k = min_by (\<lambda>k'. last_accessed (the (map_of d k'))) (fst p) (map fst ps)"
    by (simp add: lru_key_def)
  with min_by_in [of "\<lambda>k'. last_accessed (the (map_of d k'))" "fst p" "map fst ps"] Cons
  show "od_contains k d" by (simp add: od_contains_def)
qed


lemma od_get_member: "distinct (map fst d) \<Longrightarrow> p \<in> set d \<Longrightarrow> od_get d (fst p) = Some (snd p)"
  by (simp add: od_get_def)

lemma lru_key_sorted_head:
  assumes "distinct (map fst d)" and "recency_sorted d" and "d \<noteq> []"
  shows "lru_key d = Some (fst (hd d))"
proof -
  from assms(3) obtain q qs where d: "d = q # qs" by (cases d) auto
  have "\<forall>x \<in> set (map fst qs).
     last_accessed (the (map_of d (fst q))) \<le> last_accessed (the (map_of d x))"
  proof
    fix x assume "x \<in> set (map fst qs)"
    then obtain p where p: "p \<in> set qs" "x = fst p" by auto
    with d have pd: "p \<in> set d" by simp
    have qd: "q \<in> set d" using d by simp
    from od_get_member [OF assms(1) pd] od_get_member [OF assms(1) qd]
    have "map_of d x = Some (snd p)" "map_of d (fst q) = Some (snd q)"
      by (simp_all add: od_get_def p)
    moreover from assms(2) d p have "last_accessed (snd q) \<le> last_accessed (snd p)"
      by (auto simp: recency_sorted_def)
    ultimately show "last_accessed (the (map_of d (fst q))) \<le> last_accessed (the (map_of d x))"
      by simp
  qed
  from min_by_first [OF this] d show ?thesis by (simp add: lru_key_def)
qed

lemma evict_lru_frame [simp]:
  "config (evict_lru s) = config s"
  "hits (evict_lru s) = hits s"
  "misses (evict_lru s) = misses s"
  "expirations (evict_lru s) = expirations s"
  "files (evict_lru s) = files s"
  "writable (evict_lru s) = writable s"
  "save_calls (evict_lru s) = save_calls s"
  by (simp_all add: evict_lru_def split: option.splits)

lemma evict_lru_nonempty:
  "lru_key (cache s) = Some k \<Longrightarrow>
   evict_lru s = s\<lparr>cache := od_delitem k (cache s), evictions := evictions s + 1\<rparr>"
  by (simp add: evict_lru_def)

lemma evict_lru_empty: "cache s = [] \<Longrightarrow> evict_lru s = s"
  by (simp add: evict_lru_def lru_key_def)

lemma ensure_capacity_config [simp]: "config (ensure_capacity now k s) = config s"
  by (simp add: ensure_capacity_def Let_def)

lemma set_op_stages:
  assumes k: "k \<noteq> []"
    and s1: "s1 = (if auto_cleanup (config s) then snd (cleanup_expired now s) else s)"
    and s2: "s2 = ensure_capacity now k s1"
    and e: "e = new_entry k v now (case ttl of Some t \<Rightarrow> Some t | None \<Rightarrow> default_ttl (config s))"
    and s4: "s4 = s2\<lparr>cache := od_delitem k (cache s2) @ [(k, e)]\<rparr>"
  shows "set_op now (PyStr k) v ttl s =
           (Inr True, if enable_persistence (config s) then save_to_storage now s4 else s4)"
proof -
  have c1: "config s1 = config s" by (simp add: s1)
  have c2: "config s2 = config s" by (simp add: s2 c1)
  have "\<not> od_contains k (od_delitem k (cache s2))"
    by (simp add: od_contains_delitem)
  then have app: "od_setitem k e (od_delitem k (cache s2)) = od_delitem k (cache s2) @ [(k, e)]"
    by (rule od_setitem_absent)
  have app': "\<not> od_contains k (cache s2) \<Longrightarrow> od_setitem k e (cache s2) = od_delitem k (cache s2) @ [(k, e)]"
    by (simp add: od_setitem_absent od_delitem_absent)
  have "set_op now (PyStr k) v ttl s =
     (let s3 = (if od_contains k (cache s2)
                       then s2\<lparr>cache := od_delitem k (cache s2)\<rparr> else s2);
          s4' = s3\<lparr>cache := od_setitem k e (cache s3)\<rparr>
      in (Inr True, if enable_persistence (config s4') then save_to_storage now s4' else s4'))"
    unfolding set_op_def Let_def using k by (simp add: s1 c1 s2 e cong: option.case_cong)
  also have "\<dots> = (Inr True, if enable_persistence (config s) then save_to_storage now s4 else s4)"
    using app app' by (simp add: Let_def c2 s4)
  finally show ?thesis .
qed




lemma cleanup_idem_keys:
  "expired_keys now (cache (snd (cleanup_expired now s))) = []"
  by (auto simp: cleanup_cache_keys expired_keys_def filter_empty_conv)



lemmas demo_defs = demo_cache_def demo_empty_def demo_config_def demo_a_def demo_b_def

section \<open>Basic facts: the recency order\<close>

lemma recency_inv_filter: "recency_inv t d \<Longrightarrow> recency_inv t (filter P d)"
  by (auto simp: recency_inv_def recency_sorted_def distinct_map_filter filter_map [symmetric] comp_def
      intro: sorted_filter)

lemma recency_inv_delitem: "recency_inv t d \<Longrightarrow> recency_inv t (od_delitem k d)"
  unfolding od_delitem_def by (rule recency_inv_filter)

lemma recency_inv_later: "recency_inv t d \<Longrightarrow> t \<le> t' \<Longrightarrow> recency_inv t' d"
  by (force simp: recency_inv_def)

lemma recency_inv_touch:
  assumes "recency_inv t d" and "t \<le> now" and "last_accessed e = now"
  shows "recency_inv now (od_delitem k d @ [(k, e)])"
proof -
  from assms(1) have inv: "recency_inv t (od_delitem k d)" by (rule recency_inv_delitem)
  have "k \<notin> fst ` set (od_delitem k d)" by (auto simp: od_delitem_def)
  with inv assms(2,3) show ?thesis
    by (force simp: recency_inv_def recency_sorted_def sorted_append)
qed

lemma recency_inv_cleanup:
  "recency_inv t (cache s) \<Longrightarrow> recency_inv t (cache (snd (cleanup_expired now s)))"
  by (simp add: cleanup_cache_keys recency_inv_filter)

lemma recency_inv_evict:
  "recency_inv t (cache s) \<Longrightarrow> recency_inv t (cache (evict_lru s))"
  by (cases "lru_key (cache s)") (simp_all add: evict_lru_def recency_inv_delitem)

lemma recency_inv_ensure_capacity:
  "recency_inv t (cache s) \<Longrightarrow> recency_inv t (cache (ensure_capacity now k s))"
  by (simp add: ensure_capacity_def Let_def recency_inv_cleanup recency_inv_evict)

lemma recency_inv_auto_cleanup:
  "recency_inv t (cache s) \<Longrightarrow>
   recency_inv t (cache (if auto_cleanup (config s) then snd (cleanup_expired now s) else s))"
  by (simp add: recency_inv_cleanup)

lemma recency_inv_set:
  assumes "recency_inv t (cache s)" and "t \<le> now"
  shows "recency_inv now (cache (snd (set_op now ka v ttl s)))"
proof (cases ka)
  case PyOther
  with assms show ?thesis by (simp add: set_op_def recency_inv_later)
next
  case (PyStr k)
  show ?thesis
  proof (cases "k = []")
    case True
    with PyStr assms show ?thesis by (simp add: set_op_def recency_inv_later)
  next
    case False
    define s1 where "s1 = (if auto_cleanup (config s) then snd (cleanup_expired now s) else s)"
    define s2 where "s2 = ensure_capacity now k s1"
    define e where "e = new_entry k v now (case ttl of Some t \<Rightarrow> Some t | None \<Rightarrow> default_ttl (config s))"
    define s4 where "s4 = s2\<lparr>cache := od_delitem k (cache s2) @ [(k, e)]\<rparr>"
    from set_op_stages [OF False s1_def s2_def e_def s4_def]
    have c: "cache (snd (set_op now (PyStr k) v ttl s)) = od_delitem k (cache s2) @ [(k, e)]"
      by (simp add: s4_def)
    from assms(1) have "recency_inv t (cache s1)"
      unfolding s1_def by (rule recency_inv_auto_cleanup)
    then have "recency_inv t (cache s2)"
      unfolding s2_def by (rule recency_inv_ensure_capacity)
    moreover have "last_accessed e = now" by (simp add: e_def new_entry_def)
    ultimately show ?thesis
      using assms(2) by (simp add: PyStr c recency_inv_touch)
  qed
qed

lemma recency_inv_get:
  assumes "recency_inv t (cache s)" and "t \<le> now"
  shows "recency_inv now (cache (snd (get_op now k dflt s)))"
proof (cases "od_get (cache s) k")
  case None
  with assms show ?thesis by (simp add: get_op_def recency_inv_later)
next
  case (Some e)
  show ?thesis
  proof (cases "is_expired now e")
    case True
    with Some assms show ?thesis
      by (simp add: get_op_def Let_def recency_inv_delitem recency_inv_later)
  next
    case False
    with Some have "cache (snd (get_op now k dflt s)) =
        od_delitem k (cache s) @ [(k, update_access_time now e)]"
      by (simp add: get_op_def Let_def od_move_to_end_setitem)
    with assms show ?thesis
      by (simp add: recency_inv_touch update_access_time_def)
  qed
qed

lemma recency_inv_has:
  assumes "recency_inv t (cache s)" and "t \<le> now"
  shows "recency_inv now (cache (snd (has_op now k s)))"
proof -
  have "cache (snd (has_op now k s)) = cache s \<or>
        cache (snd (has_op now k s)) = od_delitem k (cache s)"
    by (simp add: has_op_def Let_def split: option.split)
  with assms show ?thesis
    using recency_inv_later recency_inv_delitem by metis
qed

lemma recency_inv_delete:
  assumes "recency_inv t (cache s)" and "t \<le> now"
  shows "recency_inv now (cache (snd (delete_op now k s)))"
proof -
  have "cache (snd (delete_op now k s)) = cache s \<or>
        cache (snd (delete_op now k s)) = od_delitem k (cache s)"
    by (simp add: delete_op_def Let_def)
  with assms show ?thesis
    using recency_inv_later recency_inv_delitem by metis
qed

lemma recency_inv_clear: "recency_inv now (cache (clear_op now s))"
  by (simp add: clear_op_def Let_def recency_inv_def recency_sorted_def)

lemma recency_inv_size:
  assumes "recency_inv t (cache s)" and "t \<le> now"
  shows "recency_inv now (cache (snd (size_op now s)))"
  using assms by (simp add: size_op_def Let_def recency_inv_cleanup recency_inv_later)

lemma recency_inv_keys:
  assumes "recency_inv t (cache s)" and "t \<le> now"
  shows "recency_inv now (cache (snd (keys_op now s)))"
  using assms by (simp add: keys_op_def Let_def recency_inv_cleanup recency_inv_later)

lemma recency_inv_get_stats:
  assumes "recency_inv t (cache s)" and "t \<le> now"
  shows "recency_inv now (cache (snd (get_stats_op now s)))"
  using assms by (simp add: get_stats_op_def Let_def recency_inv_cleanup recency_inv_later)

lemma reachable_recency_inv: "reachable t s \<Longrightarrow> recency_inv t (cache s)"
proof (induction rule: reachable.induct)
  case (reach_empty s t)
  then show ?case by (simp add: recency_inv_def recency_sorted_def)
next
  case (reach_set t s now k v ttl)
  then show ?case by (simp add: recency_inv_set)
next
  case (reach_get t s now ks dflt)
  then show ?case by (simp add: recency_inv_get)
next
  case (reach_has t s now ks)
  then show ?case by (simp add: recency_inv_has)
next
  case (reach_delete t s now ks)
  then show ?case by (simp add: recency_inv_delete)
next
  case (reach_clear t s now)
  then show ?case by (simp add: recency_inv_clear)
next
  case (reach_size t s now)
  then show ?case by (simp add: recency_inv_size)
next
  case (reach_keys t s now)
  then show ?case by (simp add: recency_inv_keys)
next
  case (reach_get_stats t s now)
  then show ?case by (simp add: recency_inv_get_stats)
qed

lemma od_delitem_head:
  "distinct (map fst (q # qs)) \<Longrightarrow> od_delitem (fst q) (q # qs) = qs"
  using od_delitem_absent [of "fst q" qs]
  by (simp add: od_delitem_def od_contains_def)


lemmas op_defs = set_op_def get_op_def Let_def cleanup_expired_def expired_keys_def
  ensure_capacity_def od_contains_def od_get_def od_delitem_def od_move_to_end_def
  new_entry_def is_expired_def update_access_time_def save_to_storage_def to_dict_def

lemma demo_run_cache:
  "cache demo_run =
     [(''b'', new_entry ''b'' 20 2 None), (''a'', (new_entry ''a'' 10 1 None)\<lparr>last_accessed := 3\<rparr>)]"
  by (simp add: demo_run_def demo_defs op_defs)


section \<open>Basic facts: loading a snapshot\<close>

lemma from_dict_to_dict [simp]: "from_dict (to_dict e) = Some e"
  by (simp add: from_dict_def to_dict_def)

lemma not_expired_not_skipped: "\<not> is_expired t e \<Longrightarrow> \<not> skipped_on_load t e"
  by (auto simp: is_expired_def skipped_on_load_def split: option.splits)

lemma fold_load_entry_cache:
  assumes "wf_store d" and "\<forall>p \<in> set d. \<not> od_contains (fst p) (cache s)"
  shows "cache (fold (load_entry now) (map (\<lambda>p. to_dict (snd p)) d) s) =
         cache s @ filter (\<lambda>p. \<not> skipped_on_load now (snd p)) d"
  using assms
proof (induction d arbitrary: s)
  case Nil
  show ?case by simp
next
  case (Cons p ps)
  from Cons.prems(1) have wf: "wf_store ps" and kp: "key (snd p) = fst p"
    and fresh: "fst p \<notin> fst ` set ps"
    by (auto simp: wf_store_def)
  show ?case
  proof (cases "skipped_on_load now (snd p)")
    case True
    then have "load_entry now (to_dict (snd p)) s = s" by (simp add: load_entry_def)
    moreover from Cons.prems(2) have "\<forall>q \<in> set ps. \<not> od_contains (fst q) (cache s)" by simp
    ultimately show ?thesis using True Cons.IH [OF wf] by simp
  next
    case False
    from Cons.prems(2) have "\<not> od_contains (fst p) (cache s)" by simp
    then have app: "od_setitem (fst p) (snd p) (cache s) = cache s @ [p]"
      by (simp add: od_setitem_absent)
    define s' where "s' = s\<lparr>cache := cache s @ [p]\<rparr>"
    from False kp app have step: "load_entry now (to_dict (snd p)) s = s'"
      by (simp add: load_entry_def s'_def)
    have "\<forall>q \<in> set ps. \<not> od_contains (fst q) (cache s')"
    proof
      fix q assume q: "q \<in> set ps"
      then have "fst q \<in> fst ` set ps" by (rule imageI)
      with fresh have "fst q \<noteq> fst p" by metis
      moreover from Cons.prems(2) q have "\<not> od_contains (fst q) (cache s)" by simp
      ultimately show "\<not> od_contains (fst q) (cache s')"
        by (simp add: s'_def od_contains_def)
    qed
    from Cons.IH [OF wf this] step False show ?thesis by (simp add: s'_def)
  qed
qed

lemma json_load_entry_to_dict:
  "json_load_entry codec (to_dict e) = to_dict (e\<lparr>entry_value := codec (entry_value e)\<rparr>)"
  by (simp add: json_load_entry_def to_dict_def)

lemma skipped_on_load_codec [simp]:
  "skipped_on_load now (e\<lparr>entry_value := v\<rparr>) = skipped_on_load now e"
  by (simp add: skipped_on_load_def)

lemma is_expired_codec [simp]:
  "is_expired now (e\<lparr>entry_value := v\<rparr>) = is_expired now e"
  by (simp add: is_expired_def)

lemma Cache_init_loads:
  assumes wf: "wf_store d" and "enable_persistence cfg" and "storage_file cfg = Some T"
    and "T \<noteq> []"
    and "fs T = Some (CacheData ver ts (map (\<lambda>p. to_dict (snd p)) d))"
  shows "cache (Cache_init codec now (Some cfg) fs w) =
         map (\<lambda>p. (fst p, (snd p)\<lparr>entry_value := codec (entry_value (snd p))\<rparr>))
           (filter (\<lambda>p. \<not> skipped_on_load now (snd p)) d)"
proof -
  define d' where
    "d' = map (\<lambda>p. (fst p, (snd p)\<lparr>entry_value := codec (entry_value (snd p))\<rparr>)) d"
  define s0 :: "'a Cache" where
    "s0 = \<lparr>config = cfg, cache = [], hits = 0, misses = 0, evictions = 0,
            expirations = 0, files = fs, writable = w, save_calls = 0\<rparr>"
  have keys: "map fst d' = map fst d" by (simp add: d'_def comp_def)
  from wf have wf': "wf_store d'" by (auto simp: wf_store_def keys) (auto simp: d'_def)
  have read: "map (json_load_entry codec \<circ> (\<lambda>p. to_dict (snd p))) d =
              map (\<lambda>p. to_dict (snd p)) d'"
    by (simp add: d'_def comp_def json_load_entry_to_dict)
  have fresh: "\<forall>p \<in> set d'. \<not> od_contains (fst p) (cache s0)"
    by (simp add: s0_def od_contains_def)
  have "cache (Cache_init codec now (Some cfg) fs w) =
        cache (fold (load_entry now) (map (\<lambda>p. to_dict (snd p)) d') s0)"
    using assms(2-5) by (simp add: Cache_init_def Let_def load_from_storage_def read s0_def)
  also have "\<dots> = filter (\<lambda>p. \<not> skipped_on_load now (snd p)) d'"
    using fold_load_entry_cache [OF wf' fresh, of now] by (simp add: s0_def)
  also have "\<dots> = map (\<lambda>p. (fst p, (snd p)\<lparr>entry_value := codec (entry_value (snd p))\<rparr>))
           (filter (\<lambda>p. \<not> skipped_on_load now (snd p)) d)"
    by (simp add: d'_def filter_map comp_def)
  finally show ?thesis .
qed

lemma get_op_live:
  "od_get (cache s) k = Some e \<Longrightarrow> \<not> is_expired t e \<Longrightarrow>
   fst (get_op t k dflt s) = entry_value e"
  by (simp add: get_op_def Let_def update_access_time_def)


lemma od_contains_cases:
  "od_contains k d \<Longrightarrow> \<exists>e. (k, e) \<in> set d"
  by (auto simp: od_contains_def)


section \<open>Basic facts: the capacity bound\<close>

lemma od_delitem_shorter:
  "od_contains k d \<Longrightarrow> length (od_delitem k d) < length d"
proof -
  assume "od_contains k d"
  then obtain e where "(k, e) \<in> set d" by (auto dest: od_contains_cases)
  moreover have "\<not> fst (k, e) \<noteq> k" by simp
  ultimately show ?thesis unfolding od_delitem_def by (rule length_filter_less)
qed

lemma cleanup_length_le: "length (cache (snd (cleanup_expired now s))) \<le> length (cache s)"
  by (simp add: cleanup_cache_keys)

lemma within_capacity_cleanup:
  "within_capacity s \<Longrightarrow> within_capacity (snd (cleanup_expired now s))"
  using cleanup_length_le [of now s] by (simp add: within_capacity_def)

lemma within_capacity_auto_cleanup:
  "within_capacity s \<Longrightarrow>
   within_capacity (if auto_cleanup (config s) then snd (cleanup_expired now s) else s)"
  by (simp add: within_capacity_cleanup)

lemma evict_lru_shorter: "cache s \<noteq> [] \<Longrightarrow> length (cache (evict_lru s)) < length (cache s)"
proof -
  assume "cache s \<noteq> []"
  then obtain k where k: "lru_key (cache s) = Some k"
    using lru_key_empty [of "cache s"] by (cases "lru_key (cache s)") auto
  from od_delitem_shorter [OF lru_key_contains [OF k]] show ?thesis
    by (simp add: evict_lru_nonempty [OF k])
qed

lemma ensure_capacity_makes_room:
  assumes "0 < max_size (config s)" and "within_capacity s"
  shows "od_contains k (cache (ensure_capacity now k s)) \<or>
         int (length (cache (ensure_capacity now k s))) < max_size (config s)"
proof (cases "\<not> od_contains k (cache s) \<and> max_size (config s) \<le> int (length (cache s))")
  case False
  then show ?thesis by (auto simp: ensure_capacity_def)
next
  case True
  define s' where "s' = snd (cleanup_expired now s)"
  have le: "int (length (cache s')) \<le> max_size (config s)"
    using within_capacity_cleanup [OF assms(2), of now] by (simp add: s'_def within_capacity_def)
  show ?thesis
  proof (cases "max_size (config s) \<le> int (length (cache s'))")
    case False
    with True show ?thesis by (simp add: ensure_capacity_def Let_def s'_def)
  next
    case full: True
    with assms(1) have "cache s' \<noteq> []" by auto
    from evict_lru_shorter [OF this] le
    have "int (length (cache (evict_lru s'))) < max_size (config s)" by simp
    with True full show ?thesis by (simp add: ensure_capacity_def Let_def s'_def)
  qed
qed

lemma evict_lru_length_le: "length (cache (evict_lru s)) \<le> length (cache s)"
  using evict_lru_shorter [of s] by (cases "cache s = []") (simp_all add: evict_lru_empty)

lemma within_capacity_evict: "within_capacity s \<Longrightarrow> within_capacity (evict_lru s)"
  using evict_lru_length_le [of s] by (simp add: within_capacity_def)

lemma within_capacity_ensure:
  "within_capacity s \<Longrightarrow> within_capacity (ensure_capacity now k s)"
  by (simp add: ensure_capacity_def Let_def within_capacity_cleanup within_capacity_evict)

lemma within_capacity_set:
  assumes "0 < max_size (config s)" and "within_capacity s"
  shows "within_capacity (snd (set_op now ka v ttl s))"
proof (cases ka)
  case PyOther
  with assms show ?thesis by (simp add: set_op_def)
next
  case (PyStr k)
  show ?thesis
  proof (cases "k = []")
    case True
    with PyStr assms show ?thesis by (simp add: set_op_def)
  next
    case False
    define s1 where "s1 = (if auto_cleanup (config s) then snd (cleanup_expired now s) else s)"
    define s2 where "s2 = ensure_capacity now k s1"
    define e where "e = new_entry k v now (case ttl of Some t \<Rightarrow> Some t | None \<Rightarrow> default_ttl (config s))"
    define s4 where "s4 = s2\<lparr>cache := od_delitem k (cache s2) @ [(k, e)]\<rparr>"
    from set_op_stages [OF False s1_def s2_def e_def s4_def]
    have c: "cache (snd (set_op now (PyStr k) v ttl s)) = od_delitem k (cache s2) @ [(k, e)]"
      and cf: "config (snd (set_op now (PyStr k) v ttl s)) = config s"
      by (simp_all add: s4_def s2_def s1_def)
    have c1: "config s1 = config s" by (simp add: s1_def)
    from assms(2) have w1: "within_capacity s1"
      unfolding s1_def by (rule within_capacity_auto_cleanup)
    from assms(1) c1 have "0 < max_size (config s1)" by simp
    from ensure_capacity_makes_room [OF this w1, of k now]
    have room: "od_contains k (cache s2) \<or> int (length (cache s2)) < max_size (config s)"
      by (simp add: s2_def c1)
    have "int (length (od_delitem k (cache s2))) < max_size (config s)"
    proof (cases "od_contains k (cache s2)")
      case True
      have "within_capacity s2"
        unfolding s2_def using w1 by (rule within_capacity_ensure)
      with od_delitem_shorter [OF True] show ?thesis
        by (simp add: within_capacity_def s2_def c1)
    next
      case False
      with room show ?thesis by (simp add: od_delitem_absent)
    qed
    then show ?thesis by (simp add: PyStr within_capacity_def c cf)
  qed
qed

lemma set_op_config [simp]: "config (snd (set_op now ka v ttl s)) = config s"
proof (cases ka)
  case PyOther
  then show ?thesis by (simp add: set_op_def)
next
  case (PyStr k)
  show ?thesis
  proof (cases "k = []")
    case True
    with PyStr show ?thesis by (simp add: set_op_def)
  next
    case False
    from set_op_stages [OF False refl refl refl refl, of now v ttl s] PyStr
    show ?thesis by simp
  qed
qed

lemma get_op_config [simp]: "config (snd (get_op now k dflt s)) = config s"
  by (simp add: get_op_def Let_def split: option.split)

lemma has_op_config [simp]: "config (snd (has_op now k s)) = config s"
  by (simp add: has_op_def Let_def split: option.split)

lemma delete_op_config [simp]: "config (snd (delete_op now k s)) = config s"
  by (simp add: delete_op_def Let_def)

lemma clear_op_config [simp]: "config (clear_op now s) = config s"
  by (simp add: clear_op_def Let_def)

lemma size_op_config [simp]: "config (snd (size_op now s)) = config s"
  by (simp add: size_op_def Let_def)

lemma keys_op_config [simp]: "config (snd (keys_op now s)) = config s"
  by (simp add: keys_op_def Let_def)

lemma get_stats_op_config [simp]: "config (snd (get_stats_op now s)) = config s"
  by (simp add: get_stats_op_def Let_def)

lemma within_capacity_get:
  "within_capacity s \<Longrightarrow> within_capacity (snd (get_op now k dflt s))"
proof -
  assume w: "within_capacity s"
  show ?thesis
  proof (cases "od_get (cache s) k")
    case None
    with w show ?thesis by (simp add: get_op_def within_capacity_def)
  next
    case (Some e)
    then have c: "od_contains k (cache s)" by (simp add: od_contains_map_of od_get_def)
    have "length (cache (snd (get_op now k dflt s))) \<le> length (cache s)"
      using Some od_delitem_shorter [OF c]
      by (simp add: get_op_def Let_def od_move_to_end_setitem)
    with w show ?thesis by (simp add: within_capacity_def)
  qed
qed

lemma within_capacity_has:
  "within_capacity s \<Longrightarrow> within_capacity (snd (has_op now k s))"
proof -
  assume w: "within_capacity s"
  have "cache (snd (has_op now k s)) = cache s \<or>
        cache (snd (has_op now k s)) = od_delitem k (cache s)"
    by (simp add: has_op_def Let_def split: option.split)
  then have "length (cache (snd (has_op now k s))) \<le> length (cache s)"
    by (auto simp: od_delitem_def)
  with w show ?thesis by (simp add: within_capacity_def)
qed

lemma within_capacity_delete:
  "within_capacity s \<Longrightarrow> within_capacity (snd (delete_op now k s))"
proof -
  assume w: "within_capacity s"
  have "cache (snd (delete_op now k s)) = cache s \<or>
        cache (snd (delete_op now k s)) = od_delitem k (cache s)"
    by (simp add: delete_op_def Let_def)
  then have "length (cache (snd (delete_op now k s))) \<le> length (cache s)"
    by (auto simp: od_delitem_def)
  with w show ?thesis by (simp add: within_capacity_def)
qed

lemma within_capacity_clear:
  "0 < max_size (config s) \<Longrightarrow> within_capacity (clear_op now s)"
  by (simp add: clear_op_def Let_def within_capacity_def)

lemma within_capacity_size:
  "within_capacity s \<Longrightarrow> within_capacity (snd (size_op now s))"
  by (simp add: size_op_def Let_def within_capacity_cleanup)

lemma within_capacity_keys:
  "within_capacity s \<Longrightarrow> within_capacity (snd (keys_op now s))"
  by (simp add: keys_op_def Let_def within_capacity_cleanup)

lemma within_capacity_get_stats:
  "within_capacity s \<Longrightarrow> within_capacity (snd (get_stats_op now s))"
  by (simp add: get_stats_op_def Let_def within_capacity_cleanup)

text \<open>From a cache without entries the bound holds after every public operation.\<close>

lemma reachable_within_capacity:
  "reachable t s \<Longrightarrow> 0 < max_size (config s) \<Longrightarrow> within_capacity s"
proof (induction rule: reachable.induct)
  case (reach_empty s t)
  then show ?case by (simp add: within_capacity_def)
next
  case (reach_set t s now k v ttl)
  then show ?case by (simp add: within_capacity_set)
next
  case (reach_get t s now ks dflt)
  then show ?case by (simp add: within_capacity_get)
next
  case (reach_has t s now ks)
  then show ?case by (simp add: within_capacity_has)
next
  case (reach_delete t s now ks)
  then show ?case by (simp add: within_capacity_delete)
next
  case (reach_clear t s now)
  then show ?case by (simp add: within_capacity_clear)
next
  case (reach_size t s now)
  then show ?case by (simp add: within_capacity_size)
next
  case (reach_keys t s now)
  then show ?case by (simp add: within_capacity_keys)
next
  case (reach_get_stats t s now)
  then show ?case by (simp add: within_capacity_get_stats)
qed

lemma fold_load_entry_config: "config (fold (load_entry now) ds s) = config s"
  by (induction ds arbitrary: s) (simp_all add: load_entry_def split: option.split)

lemma Cache_init_config: "config (Cache_init codec now (Some cfg) fs w) = cfg"
  by (simp add: Cache_init_def Let_def load_from_storage_def fold_load_entry_config
      split: option.split stored_file.split)


section \<open>Invalid arguments\<close>

text \<open>
  C8. Constructing a cache with a \<^verbatim>\<open>max_size\<close> that is zero or negative fails at once:
  \<^verbatim>\<open>CacheConfig.__init__\<close> raises \<^verbatim>\<open>ValueError\<close>, whatever the other arguments, so
  \<^verbatim>\<open>Cache(CacheConfig(max_size=m))\<close> yields the exception and no cache instance.
\<close>

theorem C8_invalid_construction:
  "m \<le> 0 \<Longrightarrow>
     CacheConfig_init m ttl path persist auto = Inl ValueError \<and>
     construct codec now m ttl path persist auto fs w = Inl ValueError"
  by (simp add: CacheConfig_init_def construct_def)

theorem C8_invalid_construction_witness:
  "(0::int) \<le> 0 \<and> (-3::int) \<le> 0 \<and>
   CacheConfig_init 0 None None True True = Inl ValueError \<and>
   (construct (\<lambda>v. v) 5 0 None None True True (\<lambda>p. None) True :: error + nat Cache)
     = Inl ValueError \<and>
   CacheConfig_init (-3) (Some 60) (Some ''c.json'') True False = Inl ValueError \<and>
   (construct (\<lambda>v. v) 5 (-3) (Some 60) (Some ''c.json'') True False (\<lambda>p. None) True
      :: error + nat Cache) = Inl ValueError"
  using C8_invalid_construction
      [of 0 None None True True "\<lambda>v. v" 5 "\<lambda>p. None :: nat stored_file option" True]
    C8_invalid_construction
      [of "-3" "Some 60" "Some ''c.json''" True False "\<lambda>v. v" 5
          "\<lambda>p. None :: nat stored_file option" True]
  by simp

text \<open>
  C9. \<^verbatim>\<open>set\<close> with an empty key, or with a key that is not a string, raises
  \<^verbatim>\<open>ValueError\<close> before the lock is taken and leaves the whole state as it was: the
  entries and their order, the four counters and the storage file.
\<close>

theorem C9_empty_key_atomic:
  "set_op now (PyStr []) v ttl s = (Inl ValueError, s) \<and>
   set_op now PyOther v ttl s = (Inl ValueError, s)"
  by (simp add: set_op_def)

section \<open>Reading: get, has, delete\<close>

text \<open>
  C3. The contract of \<^verbatim>\<open>get(key, default)\<close>, for a call that returns \<open>r\<close> and leaves
  the state \<open>s'\<close>.
  \<^item> Key absent: the default is returned and only \<^verbatim>\<open>misses\<close> changes, by one.
  \<^item> Key present but expired at the call: the entry is removed, \<^verbatim>\<open>expirations\<close> and
    \<^verbatim>\<open>misses\<close> go up by one each, the default is returned, and with persistence enabled
    \<^verbatim>\<open>_save_to_storage\<close> is called once (writing the remaining entries when the file
    can be written).
  \<^item> Key present and not expired: the stored value is returned, \<^verbatim>\<open>hits\<close> goes up by one,
    the entry gets \<^verbatim>\<open>last_accessed = now\<close> and moves to the newest end of the order; nothing
    else changes.
\<close>

theorem C3_get_contract:
  assumes "get_op now k dflt s = (r, s')"
  shows
  "(od_get (cache s) k = None \<longrightarrow> r = dflt \<and> s' = s\<lparr>misses := misses s + 1\<rparr>) \<and>
   (\<forall>e. od_get (cache s) k = Some e \<and> is_expired now e \<longrightarrow>
      r = dflt \<and>
      cache s' = od_delitem k (cache s) \<and> od_get (cache s') k = None \<and>
      expirations s' = expirations s + 1 \<and> misses s' = misses s + 1 \<and>
      hits s' = hits s \<and> evictions s' = evictions s \<and> config s' = config s \<and>
      (if enable_persistence (config s)
       then save_calls s' = save_calls s + 1 \<and>
            (\<forall>p. storage_file (config s) = Some p \<and> p \<noteq> [] \<and> writable s \<longrightarrow>
               files s' p = Some (CacheData ''1.0'' now
                                   (map (\<lambda>q. to_dict (snd q)) (od_delitem k (cache s)))))
       else save_calls s' = save_calls s \<and> files s' = files s)) \<and>
   (\<forall>e. od_get (cache s) k = Some e \<and> \<not> is_expired now e \<longrightarrow>
      r = entry_value e \<and>
      s' = s\<lparr>cache := od_delitem k (cache s) @ [(k, e\<lparr>last_accessed := now\<rparr>)],
             hits := hits s + 1\<rparr>)"
proof (intro conjI allI impI)
  assume "od_get (cache s) k = None"
  with assms show "r = dflt" "s' = s\<lparr>misses := misses s + 1\<rparr>"
    by (simp_all add: get_op_def)
next
  fix e assume h: "od_get (cache s) k = Some e \<and> is_expired now e"
  define s1 where "s1 = s\<lparr>cache := od_delitem k (cache s),
      expirations := expirations s + 1, misses := misses s + 1\<rparr>"
  from assms h have r: "r = dflt"
    and s': "s' = (if enable_persistence (config s) then save_to_storage now s1 else s1)"
    by (auto simp: get_op_def Let_def s1_def)
  show "r = dflt" by (rule r)
  show "cache s' = od_delitem k (cache s)" by (simp add: s' s1_def)
  then show "od_get (cache s') k = None" by (simp add: od_get_delitem_same)
  show "expirations s' = expirations s + 1" by (simp add: s' s1_def)
  show "misses s' = misses s + 1" by (simp add: s' s1_def)
  show "hits s' = hits s" by (simp add: s' s1_def)
  show "evictions s' = evictions s" by (simp add: s' s1_def)
  show "config s' = config s" by (simp add: s' s1_def)
  show "if enable_persistence (config s)
       then save_calls s' = save_calls s + 1 \<and>
            (\<forall>p. storage_file (config s) = Some p \<and> p \<noteq> [] \<and> writable s \<longrightarrow>
               files s' p = Some (CacheData ''1.0'' now
                                   (map (\<lambda>q. to_dict (snd q)) (od_delitem k (cache s)))))
       else save_calls s' = save_calls s \<and> files s' = files s"
    by (simp add: s' s1_def save_to_storage_files)
next
  fix e assume h: "od_get (cache s) k = Some e \<and> \<not> is_expired now e"
  with assms show "r = entry_value e"
    by (auto simp: get_op_def Let_def update_access_time_def)
  from assms h show "s' = s\<lparr>cache := od_delitem k (cache s) @ [(k, e\<lparr>last_accessed := now\<rparr>)],
             hits := hits s + 1\<rparr>"
    by (auto simp: get_op_def Let_def update_access_time_def od_move_to_end_setitem)
qed

theorem C3_get_contract_witness:
  "od_get (cache demo_cache) ''z'' = None \<and>
   fst (get_op 3 ''z'' 0 demo_cache) = 0 \<and>
   snd (get_op 3 ''z'' 0 demo_cache) = demo_cache\<lparr>misses := 1\<rparr> \<and>
   od_get (cache demo_cache) ''a'' = Some demo_a \<and> is_expired 7 demo_a \<and>
   fst (get_op 7 ''a'' 0 demo_cache) = 0 \<and>
   cache (snd (get_op 7 ''a'' 0 demo_cache)) = [(''b'', demo_b)] \<and>
   expirations (snd (get_op 7 ''a'' 0 demo_cache)) = 1 \<and>
   misses (snd (get_op 7 ''a'' 0 demo_cache)) = 1 \<and>
   save_calls (snd (get_op 7 ''a'' 0 demo_cache)) = 1 \<and>
   files (snd (get_op 7 ''a'' 0 demo_cache)) ''c.json'' =
     Some (CacheData ''1.0'' 7 [EntryDict demo_b]) \<and>
   \<not> is_expired 3 demo_a \<and>
   fst (get_op 3 ''a'' 0 demo_cache) = 1 \<and>
   snd (get_op 3 ''a'' 0 demo_cache) =
     demo_cache\<lparr>cache := [(''b'', demo_b), (''a'', demo_a\<lparr>last_accessed := 3\<rparr>)], hits := 1\<rparr>"
proof -
  have absent: "od_get (cache demo_cache) ''z'' = None"
    by (simp add: demo_defs od_get_def)
  have present: "od_get (cache demo_cache) ''a'' = Some demo_a"
    by (simp add: demo_defs od_get_def)
  have late: "is_expired 7 demo_a" and early: "\<not> is_expired 3 demo_a"
    by (simp_all add: demo_a_def is_expired_def)
  have del: "od_delitem ''a'' (cache demo_cache) = [(''b'', demo_b)]"
    by (simp add: demo_defs od_delitem_def)
  have cfg: "enable_persistence (config demo_cache)" "writable demo_cache"
    "storage_file (config demo_cache) = Some ''c.json''"
    "misses demo_cache = 0" "hits demo_cache = 0" "expirations demo_cache = 0"
    "save_calls demo_cache = 0"
    by (simp_all add: demo_defs)
  note c1 = C3_get_contract [where now = 3 and k = "''z''" and dflt = 0 and s = demo_cache,
                OF surjective_pairing]
  note c2 = C3_get_contract [where now = 7 and k = "''a''" and dflt = 0 and s = demo_cache,
                OF surjective_pairing]
  note c3 = C3_get_contract [where now = 3 and k = "''a''" and dflt = 0 and s = demo_cache,
                OF surjective_pairing]
  from c1 absent cfg have 1: "fst (get_op 3 ''z'' 0 demo_cache) = 0"
    "snd (get_op 3 ''z'' 0 demo_cache) = demo_cache\<lparr>misses := 1\<rparr>"
    by simp_all
  from c2 present late cfg del have 2: "fst (get_op 7 ''a'' 0 demo_cache) = 0"
   "cache (snd (get_op 7 ''a'' 0 demo_cache)) = [(''b'', demo_b)]"
   "expirations (snd (get_op 7 ''a'' 0 demo_cache)) = 1"
   "misses (snd (get_op 7 ''a'' 0 demo_cache)) = 1"
   "save_calls (snd (get_op 7 ''a'' 0 demo_cache)) = 1"
   "files (snd (get_op 7 ''a'' 0 demo_cache)) ''c.json'' =
     Some (CacheData ''1.0'' 7 [EntryDict demo_b])"
    by (simp_all add: to_dict_def)
  from c3 present early cfg del have 3: "fst (get_op 3 ''a'' 0 demo_cache) = 1"
   "snd (get_op 3 ''a'' 0 demo_cache) =
     demo_cache\<lparr>cache := [(''b'', demo_b), (''a'', demo_a\<lparr>last_accessed := 3\<rparr>)], hits := 1\<rparr>"
    by (simp_all add: demo_a_def)
  from absent present late early 1 2 3 show ?thesis by simp
qed

text \<open>
  C7. The frame of \<^verbatim>\<open>has(key)\<close>, for a call that returns \<open>r\<close> and leaves \<open>s'\<close>:
  \<^verbatim>\<open>hits\<close>, \<^verbatim>\<open>misses\<close> and \<^verbatim>\<open>evictions\<close> are unchanged, and every entry other than the
  queried one stays as it is (time stamps included) at its place in the order. For a missing
  key, and for a key that is present and not expired, the whole state is unchanged. The only
  change there can be is the removal of the queried entry when it is present but expired,
  which adds one to \<^verbatim>\<open>expirations\<close> and, with persistence enabled, calls
  \<^verbatim>\<open>_save_to_storage\<close> once.
\<close>

theorem C7_has_frame:
  assumes "has_op now k s = (r, s')"
  shows
  "hits s' = hits s \<and> misses s' = misses s \<and> evictions s' = evictions s \<and>
   config s' = config s \<and>
   filter (\<lambda>p. fst p \<noteq> k) (cache s') = filter (\<lambda>p. fst p \<noteq> k) (cache s) \<and>
   (od_get (cache s) k = None \<longrightarrow> r = False \<and> s' = s) \<and>
   (\<forall>e. od_get (cache s) k = Some e \<and> \<not> is_expired now e \<longrightarrow> r = True \<and> s' = s) \<and>
   (\<forall>e. od_get (cache s) k = Some e \<and> is_expired now e \<longrightarrow>
      r = False \<and> cache s' = od_delitem k (cache s) \<and>
      expirations s' = expirations s + 1 \<and>
      (if enable_persistence (config s)
       then save_calls s' = save_calls s + 1 \<and>
            (\<forall>p. storage_file (config s) = Some p \<and> p \<noteq> [] \<and> writable s \<longrightarrow>
               files s' p = Some (CacheData ''1.0'' now
                                   (map (\<lambda>q. to_dict (snd q)) (od_delitem k (cache s)))))
       else save_calls s' = save_calls s \<and> files s' = files s))"
proof (cases "od_get (cache s) k")
  case None
  with assms have "r = False" "s' = s" by (simp_all add: has_op_def)
  with None show ?thesis by simp
next
  case (Some e)
  show ?thesis
  proof (cases "is_expired now e")
    case False
    with Some assms have "r = True" "s' = s" by (simp_all add: has_op_def)
    with Some False show ?thesis by simp
  next
    case True
    define s1 where "s1 = s\<lparr>cache := od_delitem k (cache s), expirations := expirations s + 1\<rparr>"
    from assms Some True have r: "r = False"
      and s': "s' = (if enable_persistence (config s) then save_to_storage now s1 else s1)"
      by (auto simp: has_op_def Let_def s1_def)
    have c: "cache s' = od_delitem k (cache s)" by (simp add: s' s1_def)
    have f: "filter (\<lambda>p. fst p \<noteq> k) (cache s') = filter (\<lambda>p. fst p \<noteq> k) (cache s)"
      by (simp add: c od_delitem_idem)
    have p: "if enable_persistence (config s)
       then save_calls s' = save_calls s + 1 \<and>
            (\<forall>p. storage_file (config s) = Some p \<and> p \<noteq> [] \<and> writable s \<longrightarrow>
               files s' p = Some (CacheData ''1.0'' now
                                   (map (\<lambda>q. to_dict (snd q)) (od_delitem k (cache s)))))
       else save_calls s' = save_calls s \<and> files s' = files s"
      by (simp add: s' s1_def save_to_storage_files)
    have fr: "hits s' = hits s" "misses s' = misses s" "evictions s' = evictions s"
      "config s' = config s" "expirations s' = expirations s + 1"
      by (simp_all add: s' s1_def)
    from Some True r c f p fr show ?thesis by simp
  qed
qed

theorem C7_has_frame_witness:
  "od_get (cache demo_cache) ''z'' = None \<and>
   has_op 3 ''z'' demo_cache = (False, demo_cache) \<and>
   od_get (cache demo_cache) ''a'' = Some demo_a \<and> \<not> is_expired 3 demo_a \<and>
   has_op 3 ''a'' demo_cache = (True, demo_cache) \<and>
   is_expired 7 demo_a \<and>
   fst (has_op 7 ''a'' demo_cache) = False \<and>
   cache (snd (has_op 7 ''a'' demo_cache)) = [(''b'', demo_b)] \<and>
   expirations (snd (has_op 7 ''a'' demo_cache)) = 1 \<and>
   hits (snd (has_op 7 ''a'' demo_cache)) = 0 \<and>
   misses (snd (has_op 7 ''a'' demo_cache)) = 0 \<and>
   save_calls (snd (has_op 7 ''a'' demo_cache)) = 1 \<and>
   files (snd (has_op 7 ''a'' demo_cache)) ''c.json'' =
     Some (CacheData ''1.0'' 7 [EntryDict demo_b])"
proof -
  have absent: "od_get (cache demo_cache) ''z'' = None"
    by (simp add: demo_defs od_get_def)
  have present: "od_get (cache demo_cache) ''a'' = Some demo_a"
    by (simp add: demo_defs od_get_def)
  have late: "is_expired 7 demo_a" and early: "\<not> is_expired 3 demo_a"
    by (simp_all add: demo_a_def is_expired_def)
  have del: "od_delitem ''a'' (cache demo_cache) = [(''b'', demo_b)]"
    by (simp add: demo_defs od_delitem_def)
  have cfg: "enable_persistence (config demo_cache)" "writable demo_cache"
    "storage_file (config demo_cache) = Some ''c.json''"
    "misses demo_cache = 0" "hits demo_cache = 0" "expirations demo_cache = 0"
    "save_calls demo_cache = 0"
    by (simp_all add: demo_defs)
  note c1 = C7_has_frame [where now = 3 and k = "''z''" and s = demo_cache,
               OF surjective_pairing]
  note c2 = C7_has_frame [where now = 3 and k = "''a''" and s = demo_cache,
               OF surjective_pairing]
  note c3 = C7_has_frame [where now = 7 and k = "''a''" and s = demo_cache,
               OF surjective_pairing]
  from c1 absent have 1: "has_op 3 ''z'' demo_cache = (False, demo_cache)"
    by (simp add: prod_eq_iff)
  from c2 present early have 2: "has_op 3 ''a'' demo_cache = (True, demo_cache)"
    by (simp add: prod_eq_iff)
  from c3 present late cfg del have 3: "fst (has_op 7 ''a'' demo_cache) = False"
   "cache (snd (has_op 7 ''a'' demo_cache)) = [(''b'', demo_b)]"
   "expirations (snd (has_op 7 ''a'' demo_cache)) = 1"
   "hits (snd (has_op 7 ''a'' demo_cache)) = 0"
   "misses (snd (has_op 7 ''a'' demo_cache)) = 0"
   "save_calls (snd (has_op 7 ''a'' demo_cache)) = 1"
   "files (snd (has_op 7 ''a'' demo_cache)) ''c.json'' =
     Some (CacheData ''1.0'' 7 [EntryDict demo_b])"
    by (simp_all add: to_dict_def)
  from absent present late early 1 2 3 show ?thesis by simp
qed



section \<open>Writing: eviction, overwrite\<close>



section \<open>The recency order and the two evictions\<close>

text \<open>
  C4. In every state reached from a cache without entries by public operations, under
  clock readings that never decrease, the key that \<^verbatim>\<open>_evict_lru\<close> of v3 finds by scanning
  for the smallest \<^verbatim>\<open>last_accessed\<close> is the key at the head of the order, and the head's
  time stamp is the smallest of all. Hence v3's scan and v2's \<^verbatim>\<open>popitem(last=False)\<close>
  remove the same entry and leave the same store.
\<close>

theorem C4_lru_is_head:
  assumes "reachable t s"
  shows
  "(cache s \<noteq> [] \<longrightarrow>
      lru_key (cache s) = Some (fst (hd (cache s))) \<and>
      (\<forall>p \<in> set (cache s). last_accessed (snd (hd (cache s))) \<le> last_accessed (snd p))) \<and>
   cache (evict_lru s) = v2_evict_lru (cache s)"
proof (cases "cache s")
  case Nil
  then show ?thesis by (simp add: evict_lru_empty v2_evict_lru_def)
next
  case (Cons q qs)
  from assms have inv: "recency_inv t (cache s)" by (rule reachable_recency_inv)
  then have dist: "distinct (map fst (cache s))" and srt: "recency_sorted (cache s)"
    by (simp_all add: recency_inv_def)
  have ne: "cache s \<noteq> []" using Cons by simp
  have lru: "lru_key (cache s) = Some (fst q)"
    using lru_key_sorted_head [OF dist srt ne] Cons by simp
  have least: "\<forall>p \<in> set (cache s). last_accessed (snd q) \<le> last_accessed (snd p)"
    using srt Cons by (auto simp: recency_sorted_def)
  have "cache (evict_lru s) = od_delitem (fst q) (cache s)"
    by (simp add: evict_lru_nonempty [OF lru])
  also have "\<dots> = qs" using dist Cons od_delitem_head [of q qs] by simp
  finally have "cache (evict_lru s) = v2_evict_lru (cache s)"
    by (simp add: Cons v2_evict_lru_def)
  with lru least Cons show ?thesis by simp
qed

theorem C4_lru_is_head_witness:
  "reachable 3 demo_run \<and> cache demo_run \<noteq> [] \<and>
   map fst (cache demo_run) = [''b'', ''a''] \<and>
   lru_key (cache demo_run) = Some ''b'' \<and>
   last_accessed (snd (hd (cache demo_run))) = 2 \<and>
   cache (evict_lru demo_run) = v2_evict_lru (cache demo_run) \<and>
   map fst (cache (evict_lru demo_run)) = [''a'']"
proof -
  have "reachable 0 demo_empty" by (rule reach_empty) (simp add: demo_empty_def)
  then have "reachable 1 (snd (set_op 1 (PyStr ''a'') 10 None demo_empty))"
    by (rule reach_set) simp
  then have "reachable 2 (snd (set_op 2 (PyStr ''b'') 20 None
                 (snd (set_op 1 (PyStr ''a'') 10 None demo_empty))))"
    by (rule reach_set) simp
  then have "reachable 3 (snd (get_op 3 ''a'' 0 (snd (set_op 2 (PyStr ''b'') 20 None
                 (snd (set_op 1 (PyStr ''a'') 10 None demo_empty))))))"
    by (rule reach_get) simp
  then have r: "reachable 3 demo_run" by (simp add: demo_run_def)
  from C4_lru_is_head [OF r] r show ?thesis
    by (simp add: demo_run_cache v2_evict_lru_def new_entry_def)
qed

section \<open>Persistence\<close>

text \<open>
  C5, as the code has it. Let a cache with a well-formed store save its contents to the
  storage target \<open>T\<close> (the write succeeding), and let a second cache with persistence
  enabled be constructed on \<open>T\<close> at time \<open>t_load\<close>. The second store holds the saved
  entries without those skipped as expired, in the saved order, each with its key,
  \<^verbatim>\<open>created_at\<close>, \<^verbatim>\<open>expires_at\<close> and \<^verbatim>\<open>last_accessed\<close> as saved and with the value that the
  JSON codec reads back. Every saved entry that is not expired at \<open>t_load\<close> is found under
  its key, in the same relative order as saved, and \<^verbatim>\<open>get\<close> on the second instance returns
  the value read back at any time at which the entry is not expired. An entry whose value
  the codec reads back as written is the very record that was saved; when that holds of
  every value of the store, the second store is the saved one without the skipped entries.
\<close>

theorem C5_persistence_round_trip:
  assumes wf: "wf_store (cache s1)"
    and target: "storage_file (config s1) = Some T" "T \<noteq> []" and ok: "writable s1"
    and second: "enable_persistence cfg2" "storage_file cfg2 = Some T"
    and s2: "s2 = Cache_init codec t_load (Some cfg2) (files (save_to_storage t_save s1)) w"
  shows
  "cache s2 =
     map (\<lambda>p. (fst p, (snd p)\<lparr>entry_value := codec (entry_value (snd p))\<rparr>))
       (filter (\<lambda>p. \<not> skipped_on_load t_load (snd p)) (cache s1)) \<and>
   map fst (filter (\<lambda>p. \<not> is_expired t_load (snd p)) (cache s2)) =
     map fst (filter (\<lambda>p. \<not> is_expired t_load (snd p)) (cache s1)) \<and>
   (\<forall>p \<in> set (cache s1). \<not> is_expired t_load (snd p) \<longrightarrow>
      od_get (cache s2) (fst p) =
        Some ((snd p)\<lparr>entry_value := codec (entry_value (snd p))\<rparr>) \<and>
      (codec (entry_value (snd p)) = entry_value (snd p) \<longrightarrow>
         p \<in> set (cache s2) \<and> od_get (cache s2) (fst p) = Some (snd p)) \<and>
      (\<forall>t dflt. \<not> is_expired t (snd p) \<longrightarrow>
         fst (get_op t (fst p) dflt s2) = codec (entry_value (snd p)))) \<and>
   ((\<forall>p \<in> set (cache s1). codec (entry_value (snd p)) = entry_value (snd p)) \<longrightarrow>
      cache s2 = filter (\<lambda>p. \<not> skipped_on_load t_load (snd p)) (cache s1) \<and>
      filter (\<lambda>p. \<not> is_expired t_load (snd p)) (cache s2) =
        filter (\<lambda>p. \<not> is_expired t_load (snd p)) (cache s1))"
proof -
  let ?re = "\<lambda>p. (fst p, (snd p)\<lparr>entry_value := codec (entry_value (snd p))\<rparr>)"
  let ?kept = "filter (\<lambda>p. \<not> skipped_on_load t_load (snd p)) (cache s1)"
  let ?live = "\<lambda>p. \<not> is_expired t_load (snd p)"
  have written: "files (save_to_storage t_save s1) T =
      Some (CacheData ''1.0'' t_save (map (\<lambda>p. to_dict (snd p)) (cache s1)))"
    by (simp add: save_to_storage_files [OF target ok])
  have c2: "cache s2 = map ?re ?kept"
    unfolding s2
    by (rule Cache_init_loads [where fs = "files (save_to_storage t_save s1)",
          OF wf second target(2) written])
  have live_kept: "filter ?live ?kept = filter ?live (cache s1)"
    unfolding filter_filter
    by (rule filter_cong) (auto dest: not_expired_not_skipped)
  have "filter ?live (cache s2) = map ?re (filter ?live ?kept)"
    by (simp add: c2 filter_map comp_def)
  then have live2: "filter ?live (cache s2) = map ?re (filter ?live (cache s1))"
    by (simp only: live_kept)
  have order: "map fst (filter ?live (cache s2)) = map fst (filter ?live (cache s1))"
    by (simp add: live2 comp_def)
  from wf have dist: "distinct (map fst (cache s1))" by (simp add: wf_store_def)
  have k2: "map fst (cache s2) = map fst ?kept" by (simp add: c2 comp_def)
  from dist have dist2: "distinct (map fst (cache s2))"
    by (simp add: k2 distinct_map_filter)
  have each: "\<forall>p \<in> set (cache s1). \<not> is_expired t_load (snd p) \<longrightarrow>
      od_get (cache s2) (fst p) =
        Some ((snd p)\<lparr>entry_value := codec (entry_value (snd p))\<rparr>) \<and>
      (codec (entry_value (snd p)) = entry_value (snd p) \<longrightarrow>
         p \<in> set (cache s2) \<and> od_get (cache s2) (fst p) = Some (snd p)) \<and>
      (\<forall>t dflt. \<not> is_expired t (snd p) \<longrightarrow>
         fst (get_op t (fst p) dflt s2) = codec (entry_value (snd p)))"
  proof (intro ballI impI)
    fix p assume p: "p \<in> set (cache s1)" and alive: "\<not> is_expired t_load (snd p)"
    from p not_expired_not_skipped [OF alive] have "p \<in> set ?kept" by simp
    then have mem: "?re p \<in> set (cache s2)" unfolding c2 set_map by (rule imageI)
    from od_get_member [OF dist2 mem]
    have got: "od_get (cache s2) (fst p) =
        Some ((snd p)\<lparr>entry_value := codec (entry_value (snd p))\<rparr>)" by simp
    have same: "codec (entry_value (snd p)) = entry_value (snd p) \<longrightarrow>
         p \<in> set (cache s2) \<and> od_get (cache s2) (fst p) = Some (snd p)"
    proof
      assume "codec (entry_value (snd p)) = entry_value (snd p)"
      then have u: "(snd p)\<lparr>entry_value := codec (entry_value (snd p))\<rparr> = snd p" by simp
      from mem have "p \<in> set (cache s2)" by (simp only: u prod.collapse)
      moreover from got have "od_get (cache s2) (fst p) = Some (snd p)" by (simp only: u)
      ultimately show "p \<in> set (cache s2) \<and> od_get (cache s2) (fst p) = Some (snd p)"
        by simp
    qed
    have later: "\<forall>t dflt. \<not> is_expired t (snd p) \<longrightarrow>
         fst (get_op t (fst p) dflt s2) = codec (entry_value (snd p))"
    proof (intro allI impI)
      fix t dflt assume "\<not> is_expired t (snd p)"
      then have "\<not> is_expired t ((snd p)\<lparr>entry_value := codec (entry_value (snd p))\<rparr>)"
        by simp
      from get_op_live [OF got this] show "fst (get_op t (fst p) dflt s2) = codec (entry_value (snd p))"
        by simp
    qed
    from got same later show "od_get (cache s2) (fst p) =
        Some ((snd p)\<lparr>entry_value := codec (entry_value (snd p))\<rparr>) \<and>
      (codec (entry_value (snd p)) = entry_value (snd p) \<longrightarrow>
         p \<in> set (cache s2) \<and> od_get (cache s2) (fst p) = Some (snd p)) \<and>
      (\<forall>t dflt. \<not> is_expired t (snd p) \<longrightarrow>
         fst (get_op t (fst p) dflt s2) = codec (entry_value (snd p)))" by simp
  qed
  have faithful: "(\<forall>p \<in> set (cache s1). codec (entry_value (snd p)) = entry_value (snd p)) \<longrightarrow>
      cache s2 = ?kept \<and> filter ?live (cache s2) = filter ?live (cache s1)"
  proof
    assume rt: "\<forall>p \<in> set (cache s1). codec (entry_value (snd p)) = entry_value (snd p)"
    have id1: "map ?re ?kept = ?kept"
      using rt by (intro map_idI) (simp add: prod_eq_iff)
    have id2: "map ?re (filter ?live (cache s1)) = filter ?live (cache s1)"
      using rt by (intro map_idI) (simp add: prod_eq_iff)
    from c2 id1 live2 id2 show "cache s2 = ?kept \<and> filter ?live (cache s2) = filter ?live (cache s1)"
      by simp
  qed
  show ?thesis by (rule conjI [OF c2 conjI [OF order conjI [OF each faithful]]])
qed

theorem C5_persistence_round_trip_witness:
  "wf_store (cache demo_cache) \<and>
   storage_file (config demo_cache) = Some ''c.json'' \<and> ''c.json'' \<noteq> [] \<and>
   writable demo_cache \<and>
   enable_persistence small_config \<and> storage_file small_config = Some ''c.json'' \<and>
   \<not> is_expired 3 demo_a \<and> \<not> is_expired 3 demo_b \<and> \<not> is_expired 4 demo_a \<and>
   cache (Cache_init (\<lambda>v. v) 3 (Some small_config)
            (files (save_to_storage 2 demo_cache)) True) =
     [(''a'', demo_a), (''b'', demo_b)] \<and>
   fst (get_op 4 ''a'' 0
         (Cache_init (\<lambda>v. v) 3 (Some small_config)
            (files (save_to_storage 2 demo_cache)) True)) = 1 \<and>
   fst (get_op 9 ''b'' 0
         (Cache_init (\<lambda>v. v) 3 (Some small_config)
            (files (save_to_storage 2 demo_cache)) True)) = 2 \<and>
   is_expired 7 demo_a \<and>
   cache (Cache_init (\<lambda>v. v) 7 (Some small_config)
            (files (save_to_storage 2 demo_cache)) True) =
     [(''b'', demo_b)] \<and>
   wf_store (cache tuple_cache) \<and> \<not> is_expired 3 tuple_entry \<and>
   cache (Cache_init json_codec 3 (Some small_config)
            (files (save_to_storage 2 tuple_cache)) True) =
     [(''t'', tuple_entry\<lparr>entry_value := VList [VInt 1, VInt 2]\<rparr>)] \<and>
   fst (get_op 4 ''t'' (VInt 0)
         (Cache_init json_codec 3 (Some small_config)
            (files (save_to_storage 2 tuple_cache)) True)) = VList [VInt 1, VInt 2]"
proof -
  have wf: "wf_store (cache demo_cache)"
    by (simp add: demo_defs wf_store_def)
  have tgt: "storage_file (config demo_cache) = Some ''c.json''" "''c.json'' \<noteq> []"
    and ok: "writable demo_cache"
    by (simp_all add: demo_defs)
  have snd: "enable_persistence small_config" "storage_file small_config = Some ''c.json''"
    by (simp_all add: small_config_def)
  have live: "\<not> is_expired 3 demo_a" "\<not> is_expired 3 demo_b" "\<not> is_expired 4 demo_a"
    "\<not> is_expired 9 demo_b" "is_expired 7 demo_a"
    by (simp_all add: demo_a_def demo_b_def is_expired_def)
  have skip: "\<not> skipped_on_load 3 demo_a" "\<not> skipped_on_load 3 demo_b"
    "skipped_on_load 7 demo_a" "\<not> skipped_on_load 7 demo_b"
    by (simp_all add: demo_a_def demo_b_def skipped_on_load_def)
  have d: "cache demo_cache = [(''a'', demo_a), (''b'', demo_b)]"
    by (simp add: demo_cache_def demo_empty_def)
  have v: "entry_value demo_a = 1" "entry_value demo_b = 2"
    by (simp_all add: demo_a_def demo_b_def)
  have wft: "wf_store (cache tuple_cache)"
    by (simp add: tuple_cache_def tuple_entry_def wf_store_def)
  have tgtt: "storage_file (config tuple_cache) = Some ''c.json''"
    and okt: "writable tuple_cache"
    by (simp_all add: tuple_cache_def demo_config_def)
  have dt: "cache tuple_cache = [(''t'', tuple_entry)]" by (simp add: tuple_cache_def)
  have lt: "\<not> is_expired 3 tuple_entry" "\<not> is_expired 4 tuple_entry"
    "\<not> skipped_on_load 3 tuple_entry"
    by (simp_all add: tuple_entry_def is_expired_def skipped_on_load_def)
  have vt: "json_codec (entry_value tuple_entry) = VList [VInt 1, VInt 2]"
    by (simp add: tuple_entry_def)
  note c3 = C5_persistence_round_trip [OF wf tgt ok snd refl,
      where codec = "\<lambda>v. v" and t_load = 3 and t_save = 2 and w = True]
  note c7 = C5_persistence_round_trip [OF wf tgt ok snd refl,
      where codec = "\<lambda>v. v" and t_load = 7 and t_save = 2 and w = True]
  note ct = C5_persistence_round_trip [OF wft tgtt tgt(2) okt snd refl,
      where codec = json_codec and t_load = 3 and t_save = 2 and w = True]
  from c3 have 1:
    "cache (Cache_init (\<lambda>v. v) 3 (Some small_config)
            (files (save_to_storage 2 demo_cache)) True) =
     [(''a'', demo_a), (''b'', demo_b)]"
    by (simp add: d skip)
  from c3 live v have 2: "fst (get_op 4 ''a'' 0
         (Cache_init (\<lambda>v. v) 3 (Some small_config)
            (files (save_to_storage 2 demo_cache)) True)) = 1"
    by (simp add: d)
  from c3 live v have 3: "fst (get_op 9 ''b'' 0
         (Cache_init (\<lambda>v. v) 3 (Some small_config)
            (files (save_to_storage 2 demo_cache)) True)) = 2"
    by (simp add: d)
  from c7 have 4:
    "cache (Cache_init (\<lambda>v. v) 7 (Some small_config)
            (files (save_to_storage 2 demo_cache)) True) =
     [(''b'', demo_b)]"
    by (simp add: d skip)
  from ct have 5:
    "cache (Cache_init json_codec 3 (Some small_config)
            (files (save_to_storage 2 tuple_cache)) True) =
     [(''t'', tuple_entry\<lparr>entry_value := VList [VInt 1, VInt 2]\<rparr>)]"
    by (simp add: dt lt vt)
  from ct lt vt have 6: "fst (get_op 4 ''t'' (VInt 0)
         (Cache_init json_codec 3 (Some small_config)
            (files (save_to_storage 2 tuple_cache)) True)) = VList [VInt 1, VInt 2]"
    by (simp add: dt)
  from wf tgt ok snd live wft lt 1 2 3 4 5 6 show ?thesis by simp
qed


text \<open>
  The claim as first stated, with every value unchanged, fails on a cache that holds a
  tuple: JSON writes the tuple as an array, the second cache reads a list, and \<^verbatim>\<open>get\<close>
  returns that list, which is not the value that was saved.
\<close>

theorem C5_persistence_round_trip_counterexample:
  "wf_store (cache tuple_cache) \<and> writable tuple_cache \<and>
   storage_file (config tuple_cache) = Some ''c.json'' \<and>
   enable_persistence (config tuple_cache) \<and>
   od_get (cache tuple_cache) ''t'' = Some tuple_entry \<and>
   \<not> is_expired 3 tuple_entry \<and> \<not> is_expired 4 tuple_entry \<and>
   od_get (cache (Cache_init json_codec 3 (Some demo_config)
                    (files (save_to_storage 2 tuple_cache)) True)) ''t''
     \<noteq> Some tuple_entry \<and>
   fst (get_op 4 ''t'' (VInt 0)
         (Cache_init json_codec 3 (Some demo_config)
            (files (save_to_storage 2 tuple_cache)) True)) = VList [VInt 1, VInt 2] \<and>
   fst (get_op 4 ''t'' (VInt 0)
         (Cache_init json_codec 3 (Some demo_config)
            (files (save_to_storage 2 tuple_cache)) True)) \<noteq> entry_value tuple_entry"
proof -
  have wft: "wf_store (cache tuple_cache)"
    by (simp add: tuple_cache_def tuple_entry_def wf_store_def)
  have tgt: "storage_file (config tuple_cache) = Some ''c.json''" "''c.json'' \<noteq> []"
    and ok: "writable tuple_cache" and en: "enable_persistence (config tuple_cache)"
    by (simp_all add: tuple_cache_def demo_config_def)
  have cfg: "enable_persistence demo_config" "storage_file demo_config = Some ''c.json''"
    by (simp_all add: demo_config_def)
  have dt: "cache tuple_cache = [(''t'', tuple_entry)]" by (simp add: tuple_cache_def)
  have lt: "\<not> is_expired 3 tuple_entry" "\<not> is_expired 4 tuple_entry"
    "\<not> skipped_on_load 3 tuple_entry"
    by (simp_all add: tuple_entry_def is_expired_def skipped_on_load_def)
  have vt: "json_codec (entry_value tuple_entry) = VList [VInt 1, VInt 2]"
    and vt': "entry_value tuple_entry = VTuple [VInt 1, VInt 2]"
    by (simp_all add: tuple_entry_def)
  have written: "files (save_to_storage 2 tuple_cache) ''c.json'' =
      Some (CacheData ''1.0'' 2 (map (\<lambda>p. to_dict (snd p)) (cache tuple_cache)))"
    by (simp add: save_to_storage_files [OF tgt ok])
  from Cache_init_loads [where fs = "files (save_to_storage 2 tuple_cache)",
      OF wft cfg tgt(2) written, of json_codec 3 True]
  have c: "cache (Cache_init json_codec 3 (Some demo_config)
                    (files (save_to_storage 2 tuple_cache)) True) =
     [(''t'', tuple_entry\<lparr>entry_value := VList [VInt 1, VInt 2]\<rparr>)]"
    by (simp add: dt lt vt)
  have g0: "od_get (cache (Cache_init json_codec 3 (Some demo_config)
                    (files (save_to_storage 2 tuple_cache)) True)) ''t'' =
     Some (tuple_entry\<lparr>entry_value := VList [VInt 1, VInt 2]\<rparr>)"
    by (simp add: c od_get_def)
  have ne: "tuple_entry\<lparr>entry_value := VList [VInt 1, VInt 2]\<rparr> \<noteq> tuple_entry"
    by (simp add: tuple_entry_def)
  from lt(2) have "\<not> is_expired 4 (tuple_entry\<lparr>entry_value := VList [VInt 1, VInt 2]\<rparr>)"
    by simp
  from get_op_live [OF g0 this, of "VInt 0"]
  have g: "fst (get_op 4 ''t'' (VInt 0)
         (Cache_init json_codec 3 (Some demo_config)
            (files (save_to_storage 2 tuple_cache)) True)) = VList [VInt 1, VInt 2]"
    by simp
  have "od_get (cache tuple_cache) ''t'' = Some tuple_entry" by (simp add: dt od_get_def)
  with wft ok tgt(1) en lt(1,2) g0 ne g vt' show ?thesis by simp
qed

section \<open>Overwriting a key\<close>




section \<open>The capacity bound and loaded snapshots\<close>

text \<open>
  C1. The capacity invariant says that a cache built with \<^verbatim>\<open>max_size = m\<close> never holds more
  than \<open>m\<close> entries after a public operation, also when its constructor loaded a
  snapshot. From a cache without entries the bound does hold (\<open>reachable_within_capacity\<close>
  above). \<^verbatim>\<open>_load_from_storage\<close>, however, inserts every unexpired entry of the snapshot
  and never compares the count with \<^verbatim>\<open>max_size\<close>. Evaluated on the snapshot that the sample
  cache (capacity 2) saves: a cache with \<^verbatim>\<open>max_size = 1\<close> on the same file starts with two
  entries, \<^verbatim>\<open>size()\<close> returns 2, and a \<^verbatim>\<open>set\<close> of a new key evicts one entry and adds
  one, so the store stays above its bound.
\<close>

theorem C1_load_exceeds_capacity:
  "files (save_to_storage 2 demo_cache) ''c.json'' =
     Some (CacheData ''1.0'' 2 [EntryDict demo_a, EntryDict demo_b]) \<and>
   max_size (config demo_reloaded) = 1 \<and>
   cache demo_reloaded = [(''a'', demo_a), (''b'', demo_b)] \<and>
   \<not> within_capacity demo_reloaded \<and>
   fst (size_op 3 demo_reloaded) = 2 \<and>
   \<not> within_capacity (snd (size_op 3 demo_reloaded)) \<and>
   cache (snd (set_op 4 (PyStr ''c'') 3 None demo_reloaded)) =
     [(''b'', demo_b), (''c'', new_entry ''c'' 3 4 None)] \<and>
   \<not> within_capacity (snd (set_op 4 (PyStr ''c'') 3 None demo_reloaded))"
proof -
  have d: "cache demo_cache = [(''a'', demo_a), (''b'', demo_b)]"
    by (simp add: demo_cache_def demo_empty_def)
  have wf: "wf_store (cache demo_cache)" by (simp add: d wf_store_def demo_a_def demo_b_def)
  have tgt: "storage_file (config demo_cache) = Some ''c.json''" "''c.json'' \<noteq> []"
    and ok: "writable demo_cache"
    by (simp_all add: demo_defs)
  have written: "files (save_to_storage 2 demo_cache) ''c.json'' =
      Some (CacheData ''1.0'' 2 (map (\<lambda>p. to_dict (snd p)) (cache demo_cache)))"
    by (simp add: save_to_storage_files [OF tgt ok])
  have cfg: "config demo_reloaded = small_config"
    by (simp add: demo_reloaded_def Cache_init_config)
  have skip: "\<not> skipped_on_load 3 demo_a" "\<not> skipped_on_load 3 demo_b"
    by (simp_all add: demo_a_def demo_b_def skipped_on_load_def)
  have "enable_persistence small_config" "storage_file small_config = Some ''c.json''"
    by (simp_all add: small_config_def)
  from Cache_init_loads [where fs = "files (save_to_storage 2 demo_cache)",
      OF wf this tgt(2) written, of "\<lambda>v. v" 3 True]
  have c: "cache demo_reloaded = [(''a'', demo_a), (''b'', demo_b)]"
    by (simp add: demo_reloaded_def d skip)
  have m: "max_size (config demo_reloaded) = 1" "auto_cleanup (config demo_reloaded)"
    "default_ttl (config demo_reloaded) = None"
    by (simp_all add: cfg small_config_def)
  have over: "\<not> within_capacity demo_reloaded" by (simp add: within_capacity_def c m)
  have none3: "expired_keys 3 (cache demo_reloaded) = []"
    and none4: "expired_keys 4 (cache demo_reloaded) = []"
    by (simp_all add: c expired_keys_def is_expired_def demo_a_def demo_b_def)
  have sz: "size_op 3 demo_reloaded = (2, demo_reloaded)"
    by (simp add: size_op_def Let_def cleanup_none_expired [OF none3] c)
  have lru: "lru_key (cache demo_reloaded) = Some ''a''"
    by (simp add: c lru_key_def demo_a_def demo_b_def)
  have ev: "cache (evict_lru demo_reloaded) = [(''b'', demo_b)]"
    by (simp add: evict_lru_nonempty [OF lru] c od_delitem_def)
  have ens: "ensure_capacity 4 ''c'' demo_reloaded = evict_lru demo_reloaded"
    by (simp add: ensure_capacity_def Let_def cleanup_none_expired [OF none4] c m od_contains_def)
  have "''c'' \<noteq> []" by simp
  from set_op_stages [OF this refl refl refl refl, of 4 3 None demo_reloaded]
  have st: "cache (snd (set_op 4 (PyStr ''c'') 3 None demo_reloaded)) =
     [(''b'', demo_b), (''c'', new_entry ''c'' 3 4 None)]"
    by (simp add: m cleanup_none_expired [OF none4] ens ev od_delitem_def)
  then have over': "\<not> within_capacity (snd (set_op 4 (PyStr ''c'') 3 None demo_reloaded))"
    by (simp add: within_capacity_def m)
  from written d c m(1) over sz st over' show ?thesis by (simp add: to_dict_def)
qed

end
